theory Spec2Isabelle
  imports Main "HOL-Library.Sublist" "HOL-Library.Multiset"
begin

unbundle bit_operations_syntax

section \<open>HostBasedUnitTestRunner: data model\<close>

text \<open>
  The plugin \<^verbatim>\<open>HostBasedUnitTestRunner.py\<close> drives external processes and the file
  system. Everything outside the plugin (the file system, the spawned processes, the shell
  environment, the XML parser, the flavour of \<^verbatim>\<open>os.path\<close>) is a parameter of the model: a
  record of functions over an abstract external world \<open>'w\<close>. The plugin itself is embedded
  as functions that pass a state (the world, the trace of what the plugin did, and the
  local counter \<^verbatim>\<open>failure_count\<close>) and return either a raised exception or a value.
\<close>

subsection \<open>Exceptions and log levels\<close>

datatype py_error =
    NotImplementedError string
  | ParseError string
  | KeyError string
  | AttributeError string
  | TypeError string
  | IndexError string
  | UnboundLocalError string
  | OSError string

datatype level = DEBUG | INFO | WARNING | ERROR | SECTION | SUBSECTION

subsection \<open>Result documents\<close>

text \<open>
  An element of \<^verbatim>\<open>xml.etree.ElementTree\<close>: tag, attribute dictionary, text (\<^verbatim>\<open>None\<close> when
  the element has none) and child elements in document order.
\<close>

datatype element =
  Element (tag: string) (attrib: "(string \<times> string) list") (text_of: "string option")
    (children: "element list")

subsection \<open>The trace\<close>

text \<open>
  One entry per observable action of the plugin, in program order: a logging call, a shell
  variable written, an external command run (with its exit code), a glob, a file removed,
  an XML document handed to the parser (with what the parser
  returned: \<open>None\<close> for a document that is not well-formed). The read-only queries \<^verbatim>\<open>os.path.isfile\<close> and
  \<^verbatim>\<open>os.stat\<close> leave no entry.
\<close>

datatype event =
    Log level string
  | SetShellVar string string
  | Run string string int
  | Glob string
  | Remove string
  | ParseXml string "element option"

subsection \<open>The external world\<close>

text \<open>
  \<^item> \<open>GetHostInfo_os\<close>: \<^verbatim>\<open>GetHostInfo().os\<close>;
  \<^item> \<open>run_cmd cmd params workingdir\<close>: \<^verbatim>\<open>RunCmd\<close>, giving the exit code, the captured
    output and the world the process leaves behind;
  \<^item> \<open>glob_files pattern recursive\<close>: \<^verbatim>\<open>glob.glob\<close>;
  \<^item> \<open>os_path_isfile\<close>, \<open>os_stat_st_mode\<close>: \<^verbatim>\<open>os.path.isfile\<close>, \<^verbatim>\<open>os.stat(p).st_mode\<close>
    (the plugin only calls \<^verbatim>\<open>os.stat\<close> on a path \<^verbatim>\<open>os.path.isfile\<close> has just accepted);
  \<^item> \<open>os_remove\<close>: \<^verbatim>\<open>os.remove\<close>, \<open>None\<close> when it raises \<^verbatim>\<open>OSError\<close>;
  \<^item> \<open>xml_parse\<close>: \<^verbatim>\<open>xml.etree.ElementTree.parse(f).getroot()\<close>, \<open>None\<close> when the
    document is not well-formed (\<^verbatim>\<open>ParseError\<close>);
  \<^item> \<open>shell_set\<close>: \<^verbatim>\<open>shell_env.set_shell_var\<close>;
  \<^item> \<open>os_path_join\<close>, \<open>os_path_basename\<close>, \<open>os_sep\<close>: the host's \<^verbatim>\<open>os.path\<close>.
\<close>

record 'w host =
  GetHostInfo_os :: string
  run_cmd :: "string \<Rightarrow> string \<Rightarrow> string option \<Rightarrow> 'w \<Rightarrow> int \<times> string \<times> 'w"
  glob_files :: "string \<Rightarrow> bool \<Rightarrow> 'w \<Rightarrow> string list"
  os_path_isfile :: "string \<Rightarrow> 'w \<Rightarrow> bool"
  os_stat_st_mode :: "string \<Rightarrow> 'w \<Rightarrow> nat"
  os_remove :: "string \<Rightarrow> 'w \<Rightarrow> 'w option"
  xml_parse :: "string \<Rightarrow> 'w \<Rightarrow> element option"
  shell_set :: "string \<Rightarrow> string \<Rightarrow> 'w \<Rightarrow> 'w"
  os_path_join :: "string \<Rightarrow> string \<Rightarrow> string"
  os_path_basename :: "string \<Rightarrow> string"
  os_sep :: char

text \<open>The build variables: \<^verbatim>\<open>thebuilder.env.GetValue(k)\<close> is \<^verbatim>\<open>None\<close> for an unset key.\<close>

type_synonym build_env = "string \<rightharpoonup> string"

definition GetValue :: "build_env \<Rightarrow> string \<Rightarrow> string option" where
  "GetValue env k = env k"

record 'w state =
  world :: 'w
  events :: "event list"
  failure_count :: int

type_synonym ('w, 'a) result = "py_error \<times> 'w state + 'a \<times> 'w state"

subsection \<open>Primitive actions\<close>

definition emit :: "event \<Rightarrow> 'w state \<Rightarrow> 'w state" where
  "emit e s = s\<lparr>events := events s @ [e]\<rparr>"

definition logging :: "level \<Rightarrow> string \<Rightarrow> 'w state \<Rightarrow> 'w state" where
  "logging lvl msg s = emit (Log lvl msg) s"

definition set_shell_var :: "'w host \<Rightarrow> string \<Rightarrow> string \<Rightarrow> 'w state \<Rightarrow> 'w state" where
  "set_shell_var h k v s = emit (SetShellVar k v) (s\<lparr>world := shell_set h k v (world s)\<rparr>)"

definition RunCmd ::
  "'w host \<Rightarrow> string \<Rightarrow> string \<Rightarrow> string option \<Rightarrow> 'w state \<Rightarrow> int \<times> string \<times> 'w state" where
  "RunCmd h cmd params workingdir s =
     (case run_cmd h cmd params workingdir (world s) of
        (ret, out, w') \<Rightarrow> (ret, out, emit (Run cmd params ret) (s\<lparr>world := w'\<rparr>)))"

definition glob_glob :: "'w host \<Rightarrow> string \<Rightarrow> bool \<Rightarrow> 'w state \<Rightarrow> string list \<times> 'w state" where
  "glob_glob h pattern recursive s = (glob_files h pattern recursive (world s), emit (Glob pattern) s)"

definition remove_file :: "'w host \<Rightarrow> string \<Rightarrow> 'w state \<Rightarrow> ('w, unit) result" where
  "remove_file h p s =
     (case os_remove h p (world s) of
        None \<Rightarrow> Inl (OSError p, s)
      | Some w' \<Rightarrow> Inr ((), emit (Remove p) (s\<lparr>world := w'\<rparr>)))"

text \<open>\<^verbatim>\<open>"%s" % x\<close> and \<^verbatim>\<open>f"{x}"\<close> print \<^verbatim>\<open>None\<close> as the word None.\<close>

definition fstr :: "string option \<Rightarrow> string" where
  "fstr x = (case x of None \<Rightarrow> ''None'' | Some v \<Rightarrow> v)"

section \<open>Result parsing (lines 127 to 138)\<close>

text \<open>
  The three nested loops \<^verbatim>\<open>for suite in root: for case in suite: for result in case\<close>.
  A node tagged \<^verbatim>\<open>failure\<close> logs the test's base name, then reads
  \<^verbatim>\<open>case.attrib['name']\<close> (a \<^verbatim>\<open>KeyError\<close> when the attribute is missing), logs name and
  text, and increments \<^verbatim>\<open>failure_count\<close>.
\<close>

fun for_results :: "'w host \<Rightarrow> string \<Rightarrow> element \<Rightarrow> element list \<Rightarrow> 'w state \<Rightarrow> ('w, unit) result" where
  "for_results h test tcase [] s = Inr ((), s)"
| "for_results h test tcase (result # rest) s =
     (if tag result = ''failure'' then
        (let s1 = logging WARNING (os_path_basename h test @ '' Test Failed'') s in
         case map_of (attrib tcase) ''name'' of
           None \<Rightarrow> Inl (KeyError ''name'', s1)
         | Some name \<Rightarrow>
             (let s2 = logging WARNING (''  '' @ name @ '' - '' @ fstr (text_of result)) s1 in
              for_results h test tcase rest (s2\<lparr>failure_count := failure_count s2 + 1\<rparr>)))
      else for_results h test tcase rest s)"

fun for_cases :: "'w host \<Rightarrow> string \<Rightarrow> element list \<Rightarrow> 'w state \<Rightarrow> ('w, unit) result" where
  "for_cases h test [] s = Inr ((), s)"
| "for_cases h test (tcase # rest) s =
     (case for_results h test tcase (children tcase) s of
        Inl e \<Rightarrow> Inl e
      | Inr (_, s') \<Rightarrow> for_cases h test rest s')"

fun for_suites :: "'w host \<Rightarrow> string \<Rightarrow> element list \<Rightarrow> 'w state \<Rightarrow> ('w, unit) result" where
  "for_suites h test [] s = Inr ((), s)"
| "for_suites h test (suite # rest) s =
     (case for_cases h test (children suite) s of
        Inl e \<Rightarrow> Inl e
      | Inr (_, s') \<Rightarrow> for_suites h test rest s')"

text \<open>
  One result document: \<^verbatim>\<open>root = xml.etree.ElementTree.parse(xml_result_file).getroot()\<close>,
  then the tally. The parse error is not caught.
\<close>

definition parse_result_file :: "'w host \<Rightarrow> string \<Rightarrow> string \<Rightarrow> 'w state \<Rightarrow> ('w, unit) result" where
  "parse_result_file h test xml_result_file s =
     (let parsed = xml_parse h xml_result_file (world s);
          s1 = emit (ParseXml xml_result_file parsed) s
      in case parsed of
        None \<Rightarrow> Inl (ParseError xml_result_file, s1)
      | Some root \<Rightarrow> for_suites h test (children root) s1)"

fun for_xml_results :: "'w host \<Rightarrow> string \<Rightarrow> string list \<Rightarrow> 'w state \<Rightarrow> ('w, unit) result" where
  "for_xml_results h test [] s = Inr ((), s)"
| "for_xml_results h test (xml_result_file # rest) s =
     (case parse_result_file h test xml_result_file s of
        Inl e \<Rightarrow> Inl e
      | Inr (_, s') \<Rightarrow> for_xml_results h test rest s')"

section \<open>Running the test binaries (lines 108 to 138)\<close>

definition cmocka_xml_file :: "string \<Rightarrow> string \<Rightarrow> string" where
  "cmocka_xml_file test arch = test @ ''.CMOCKA.%g.'' @ arch @ ''.result.xml''"

definition gtest_xml_file :: "string \<Rightarrow> string \<Rightarrow> string" where
  "gtest_xml_file test arch = test @ ''.GTEST.'' @ arch @ ''.result.xml''"

definition file_match_pattern :: "string \<Rightarrow> string \<Rightarrow> string" where
  "file_match_pattern test arch = test @ ''.*.'' @ arch @ ''.result.xml''"

definition quoted :: "string \<Rightarrow> string" where
  "quoted test = [CHR 0x22] @ test @ [CHR 0x22]"

definition run_test :: "'w host \<Rightarrow> string \<Rightarrow> string \<Rightarrow> string \<Rightarrow> 'w state \<Rightarrow> ('w, unit) result" where
  "run_test h arch cp test s =
     (let s1 = set_shell_var h ''CMOCKA_XML_FILE'' (cmocka_xml_file test arch) s;
          s2 = set_shell_var h ''GTEST_OUTPUT'' (''xml:'' @ gtest_xml_file test arch) s1
      in case RunCmd h (quoted test) '''' (Some cp) s2 of
        (ret, _, s3) \<Rightarrow>
          if ret \<noteq> 0 then
            (let s4 = logging ERROR (''UnitTest Execution Error: '' @ os_path_basename h test) s3
             in Inr ((), s4\<lparr>failure_count := failure_count s4 + 1\<rparr>))
          else
            (let s4 = logging INFO (''UnitTest Completed: '' @ os_path_basename h test) s3
             in case glob_glob h (file_match_pattern test arch) False s4 of
               (xml_results_list, s5) \<Rightarrow> for_xml_results h test xml_results_list s5))"

fun for_tests :: "'w host \<Rightarrow> string \<Rightarrow> string \<Rightarrow> string list \<Rightarrow> 'w state \<Rightarrow> ('w, unit) result" where
  "for_tests h arch cp [] s = Inr ((), s)"
| "for_tests h arch cp (test # rest) s =
     (case run_test h arch cp test s of
        Inl e \<Rightarrow> Inl e
      | Inr (_, s') \<Rightarrow> for_tests h arch cp rest s')"

section \<open>Test discovery (lines 74 to 94)\<close>

text \<open>
  \<^verbatim>\<open>str.upper\<close> and \<^verbatim>\<open>str.split\<close> on ASCII text: the host name and the architecture list
  are ASCII.
\<close>

definition ascii_upper :: "char \<Rightarrow> char" where
  "ascii_upper c =
     (case map_of (zip ''abcdefghijklmnopqrstuvwxyz'' ''ABCDEFGHIJKLMNOPQRSTUVWXYZ'') c of
        Some u \<Rightarrow> u
      | None \<Rightarrow> c)"

definition str_upper :: "string \<Rightarrow> string" where
  "str_upper = map ascii_upper"

definition isspace :: "char \<Rightarrow> bool" where
  "isspace c = (c \<in> set [CHR 0x20, CHR 0x09, CHR 0x0A, CHR 0x0B, CHR 0x0C, CHR 0x0D,
                            CHR 0x1C, CHR 0x1D, CHR 0x1E, CHR 0x1F])"

fun split_from :: "string \<Rightarrow> string \<Rightarrow> string list" where
  "split_from word [] = (if word = [] then [] else [word])"
| "split_from word (c # cs) =
     (if isspace c then (if word = [] then [] else [word]) @ split_from [] cs
      else split_from (word @ [c]) cs)"

definition str_split :: "string \<Rightarrow> string list" where
  "str_split s = split_from [] s"

definition S_IEXEC :: nat where "S_IEXEC = 64"
definition S_IXGRP :: nat where "S_IXGRP = 8"
definition S_IXOTH :: nat where "S_IXOTH = 1"

text \<open>
  The loop \<^verbatim>\<open>for a in testList[:]\<close>: it walks a copy of the glob result and removes the
  rejected entries from \<^verbatim>\<open>testList\<close> itself. The path it tests is
  \<^verbatim>\<open>p = os.path.join(cp, a)\<close>, where \<^verbatim>\<open>a\<close> is the entry the glob returned.
\<close>

fun for_candidates :: "'w host \<Rightarrow> string \<Rightarrow> string list \<Rightarrow> string list \<Rightarrow> 'w state \<Rightarrow> string list \<times> 'w state" where
  "for_candidates h cp [] testList s = (testList, s)"
| "for_candidates h cp (a # rest) testList s =
     (let p = os_path_join h cp a in
      if \<not> os_path_isfile h p (world s) then
        for_candidates h cp rest (remove1 a testList) (logging DEBUG (''Remove directory file: '' @ p) s)
      else if os_stat_st_mode h p (world s) AND (S_IEXEC OR S_IXGRP OR S_IXOTH) = 0 then
        for_candidates h cp rest (remove1 a testList) (logging DEBUG (''Remove non-executable file: '' @ p) s)
      else for_candidates h cp rest testList (logging INFO (''Test file found: '' @ p) s))"

definition discover_tests :: "'w host \<Rightarrow> string \<Rightarrow> 'w state \<Rightarrow> ('w, string list) result" where
  "discover_tests h cp s =
     (if str_upper (GetHostInfo_os h) = ''LINUX'' then
        (case glob_glob h (os_path_join h cp ''*Test*'') False s of
           (testList, s1) \<Rightarrow> Inr (for_candidates h cp testList testList s1))
      else if str_upper (GetHostInfo_os h) = ''WINDOWS'' then
        Inr (glob_glob h (os_path_join h cp ''*Test*.exe'') False s)
      else Inl (NotImplementedError ''Unsupported Operating System'', s))"

section \<open>Coverage with lcov (lines 154 to 224)\<close>

definition isdigit :: "char \<Rightarrow> bool" where
  "isdigit c = (c \<in> set ''0123456789'')"

definition digit_val :: "char \<Rightarrow> nat" where
  "digit_val c = (case map_of (zip ''0123456789'' [0, 1, 2, 3, 4, 5, 6, 7, 8, 9]) c of Some d \<Rightarrow> d | None \<Rightarrow> 0)"

text \<open>\<^verbatim>\<open>int(major)\<close> on a string of decimal digits.\<close>

definition int_of_digits :: "string \<Rightarrow> nat" where
  "int_of_digits ds = foldl (\<lambda>n c. 10 * n + digit_val c) 0 ds"

text \<open>
  \<^verbatim>\<open>re.search(r"version (\d+)\.(\d+)", text)\<close>: the match at the leftmost position where
  one exists. At one position the literal \<^verbatim>\<open>version \<close> must be followed by a run of
  digits, a dot and a second run of digits; the greedy first group takes the whole run.
  The result is the pair of groups.
\<close>

definition match_version_at :: "string \<Rightarrow> (string \<times> string) option" where
  "match_version_at s =
     (if prefix ''version '' s then
        (let r = drop 8 s; major = takeWhile isdigit r in
         if major = [] then None
         else (case dropWhile isdigit r of
                 [] \<Rightarrow> None
               | c # r2 \<Rightarrow>
                   if c = CHR ''.'' \<and> takeWhile isdigit r2 \<noteq> [] then Some (major, takeWhile isdigit r2)
                   else None))
      else None)"

fun re_search_version :: "string \<Rightarrow> (string \<times> string) option" where
  "re_search_version [] = None"
| "re_search_version (c # cs) =
     (case match_version_at (c # cs) of
        Some groups \<Rightarrow> Some groups
      | None \<Rightarrow> re_search_version cs)"

definition get_lcov_version :: "'w host \<Rightarrow> 'w state \<Rightarrow> ('w, nat option) result" where
  "get_lcov_version h s =
     (case RunCmd h ''lcov'' ''--version'' None s of
        (ret, lcov_ver, s1) \<Rightarrow>
          if ret \<noteq> 0 then Inr (None, s1)
          else (case re_search_version lcov_ver of
                  None \<Rightarrow> Inl (AttributeError ''groups'', s1)
                | Some (major, _) \<Rightarrow> Inr (Some (int_of_digits major), s1)))"

fun str_nat :: "nat \<Rightarrow> string" where
  "str_nat n = (if n < 10 then [''0123456789'' ! n] else str_nat (n div 10) @ [''0123456789'' ! (n mod 10)])"

declare str_nat.simps [simp del]

text \<open>
  The idiom the coverage functions repeat: \<^verbatim>\<open>ret = RunCmd(cmd, params)\<close>,
  \<^verbatim>\<open>if ret != 0: logging.error(msg); return 1\<close>, then the rest of the function \<open>rest\<close>.
\<close>

definition stage ::
  "'w host \<Rightarrow> string \<Rightarrow> string \<Rightarrow> string \<Rightarrow> ('w state \<Rightarrow> ('w, int) result) \<Rightarrow> 'w state \<Rightarrow> ('w, int) result" where
  "stage h cmd params msg rest s =
     (case RunCmd h cmd params None s of
        (ret, _, s') \<Rightarrow> if ret \<noteq> 0 then Inr (1, logging ERROR msg s') else rest s')"

definition lcov_error_settings :: "nat \<Rightarrow> string" where
  "lcov_error_settings lcov_version_major =
     (if lcov_version_major \<ge> 2 then ''--ignore-errors mismatch'' else [])"

text \<open>The files the lcov pipeline writes, as the command lines name them.\<close>

definition cov_base_info :: "string \<Rightarrow> string" where
  "cov_base_info buildOutputBase = buildOutputBase @ ''/cov-base.info''"

definition coverage_test_info :: "string \<Rightarrow> string" where
  "coverage_test_info buildOutputBase = buildOutputBase @ ''/coverage-test.info''"

definition total_coverage_info :: "string \<Rightarrow> string" where
  "total_coverage_info buildOutputBase = buildOutputBase @ ''/total-coverage.info''"

definition compare_xml :: "string \<Rightarrow> string" where
  "compare_xml buildOutputBase = buildOutputBase @ ''/compare.xml''"

definition coverage_xml :: "string \<Rightarrow> string" where
  "coverage_xml buildOutputBase = buildOutputBase @ ''/coverage.xml''"

definition all_coverage_info :: "string \<Rightarrow> string" where
  "all_coverage_info workspace = workspace @ ''/Build/all-coverage.info''"

definition workspace_coverage_xml :: "string \<Rightarrow> string" where
  "workspace_coverage_xml workspace = workspace @ ''/Build/coverage.xml''"

definition excludes :: string where
  "excludes = ''^.*UnitTest'' @ [CHR 0x5C] @ ''|^.*MU'' @ [CHR 0x5C] @ ''|^.*Mock'' @ [CHR 0x5C] @ ''|^.*DEBUG''"

definition rc_branch :: string where
  "rc_branch = '' --rc lcov_branch_coverage=1 ''"

definition gen_code_coverage_gcc :: "'w host \<Rightarrow> build_env \<Rightarrow> 'w state \<Rightarrow> ('w, int) result" where
  "gen_code_coverage_gcc h env s =
     (let s0 = logging INFO ''Generating UnitTest code coverage'' s;
          buildOutputBase = fstr (GetValue env ''BUILD_OUTPUT_BASE'');
          workspace = fstr (GetValue env ''WORKSPACE'')
      in case get_lcov_version h s0 of
        Inl e \<Rightarrow> Inl e
      | Inr (None, s1) \<Rightarrow>
          Inr (1, logging ERROR ''UnitTest Coverage: Failed to determine lcov version'' s1)
      | Inr (Some lcov_version_major, s1) \<Rightarrow>
          if lcov_version_major = 0 then
            Inr (1, logging ERROR ''UnitTest Coverage: Failed to determine lcov version'' s1)
          else
           (let les = lcov_error_settings lcov_version_major in
            (stage h ''lcov''
               (''--no-external --capture --initial --directory '' @ buildOutputBase @
                '' --output-file '' @ cov_base_info buildOutputBase @ rc_branch @ les)
               ''UnitTest Coverage: Failed to build initial coverage data.''
            (stage h ''lcov''
               (''--capture --directory '' @ buildOutputBase @ ''/ --output-file '' @
                coverage_test_info buildOutputBase @ rc_branch @ les)
               ''UnitTest Coverage: Failed to build coverage data for tested files.''
            (stage h ''lcov''
               (''--add-tracefile '' @ cov_base_info buildOutputBase @ '' --add-tracefile '' @
                coverage_test_info buildOutputBase @ '' --output-file '' @
                total_coverage_info buildOutputBase @ rc_branch @ les)
               ''UnitTest Coverage: Failed to aggregate coverage data.''
            (stage h ''lcov_cobertura''
               (total_coverage_info buildOutputBase @ '' -o '' @ compare_xml buildOutputBase)
               ''UnitTest Coverage: Failed to generate coverage XML.''
            (stage h ''lcov_cobertura''
               (total_coverage_info buildOutputBase @ '' --excludes '' @ excludes @ '' -o '' @
                coverage_xml buildOutputBase)
               ''UnitTest Coverage: Failed generate filtered coverage XML.''
            (\<lambda>s7. case glob_glob h (workspace @ ''/Build/**/total-coverage.info'') True s7 of
               (testCoverageList, s8) \<Rightarrow>
                 stage h ''lcov''
                   (concat (map (\<lambda>testCoverage. '' --add-tracefile '' @ testCoverage) testCoverageList) @
                    '' --output-file '' @ all_coverage_info workspace @ rc_branch @ les)
                   ''UnitTest Coverage: Failed generate all coverage file.''
                   (\<lambda>s9. case (if os_path_isfile h (workspace_coverage_xml workspace) (world s9)
                                 then remove_file h (workspace_coverage_xml workspace) s9
                                 else Inr ((), s9)) of
                      Inl e \<Rightarrow> Inl e
                    | Inr (_, s10) \<Rightarrow>
                        (case RunCmd h ''lcov_cobertura''
                                (all_coverage_info workspace @ '' --excludes '' @ excludes @ '' -o '' @
                                 workspace_coverage_xml workspace) None s10 of
                           (ret, _, s11) \<Rightarrow> Inr (0, s11)))
                   s8))))))
            (logging INFO (''Got lcov version '' @ str_nat lcov_version_major) s1)))"

section \<open>Coverage with OpenCppCoverage (lines 227 to 297)\<close>

text \<open>
  The two loops return from the function on a failing command: the loop functions give
  \<open>Some 1\<close> for \<^verbatim>\<open>return 1\<close> and \<open>None\<close> when the loop ran to its end.
\<close>

fun for_testFiles ::
  "'w host \<Rightarrow> string \<Rightarrow> string \<Rightarrow> string \<Rightarrow> string list \<Rightarrow> 'w state \<Rightarrow> int option \<times> 'w state" where
  "for_testFiles h workspace workspaceBuild buildOutputBase [] s = (None, s)"
| "for_testFiles h workspace workspaceBuild buildOutputBase (testFile # rest) s =
     (case RunCmd h ''OpenCppCoverage''
             (''--source '' @ workspace @ '' --export_type binary:'' @ testFile @ ''.cov -- '' @ testFile)
             None s of
        (ret, _, s1) \<Rightarrow>
          if ret \<noteq> 0 then
            (Some 1, logging ERROR ''UnitTest Coverage: Failed to collect coverage data.'' s1)
          else
            (let totalCoverageFile = os_path_join h buildOutputBase ''coverage.cov'';
                 coverageFile = '' --input_coverage='' @ testFile @ ''.cov'' @
                   (if os_path_isfile h totalCoverageFile (world s1)
                    then '' --input_coverage='' @ totalCoverageFile else [])
             in case RunCmd h ''OpenCppCoverage''
                       (''--export_type binary:'' @ totalCoverageFile @ '' '' @
                        ''--working_dir='' @ workspaceBuild @ '' '' @ coverageFile)
                       None s1 of
                  (ret2, _, s2) \<Rightarrow>
                    if ret2 \<noteq> 0 then
                      (Some 1, logging ERROR ''UnitTest Coverage: Failed to collect coverage data.'' s2)
                    else for_testFiles h workspace workspaceBuild buildOutputBase rest s2))"

fun for_testCoverages ::
  "'w host \<Rightarrow> string \<Rightarrow> string list \<Rightarrow> 'w state \<Rightarrow> int option \<times> 'w state" where
  "for_testCoverages h workspaceBuild [] s = (None, s)"
| "for_testCoverages h workspaceBuild (testCoverage # rest) s =
     (let totalCoverageFile = os_path_join h workspaceBuild ''coverage.cov'';
          coverageFile = '' --input_coverage='' @ testCoverage @
            (if os_path_isfile h totalCoverageFile (world s)
             then '' --input_coverage='' @ totalCoverageFile else [])
      in case RunCmd h ''OpenCppCoverage''
                (''--export_type binary:'' @ totalCoverageFile @ '' '' @
                 ''--working_dir='' @ workspaceBuild @ '' '' @ coverageFile)
                None s of
           (ret, _, s1) \<Rightarrow>
             if ret \<noteq> 0 then
               (Some 1, logging ERROR ''UnitTest Coverage: Failed to collect coverage data.'' s1)
             else for_testCoverages h workspaceBuild rest s1)"

text \<open>
  \<^verbatim>\<open>totalCoverageFile\<close> is assigned in the body of the first loop only: with an empty
  \<^verbatim>\<open>testList\<close> the export after the loop reads an unbound local. \<^verbatim>\<open>workspace[-1]\<close>
  raises on \<^verbatim>\<open>None\<close> and on the empty string.
\<close>

definition gen_code_coverage_msvc :: "'w host \<Rightarrow> build_env \<Rightarrow> 'w state \<Rightarrow> ('w, int) result" where
  "gen_code_coverage_msvc h env s =
     (let s0 = logging INFO ''Generating UnitTest code coverage'' s in
      case GetValue env ''BUILD_OUTPUT_BASE'' of
        None \<Rightarrow> Inl (TypeError ''join'', s0)
      | Some buildOutputBase \<Rightarrow>
         (case glob_glob h (os_path_join h (os_path_join h buildOutputBase ''**'') ''*Test*.exe'') True s0 of
            (testList, s1) \<Rightarrow>
             (case GetValue env ''WORKSPACE'' of
                None \<Rightarrow> Inl (TypeError ''workspace[-1]'', s1)
              | Some ws \<Rightarrow>
                  if ws = [] then Inl (IndexError ''workspace[-1]'', s1)
                  else
                   (let workspace = (if last ws \<noteq> os_sep h then ws @ [os_sep h] else ws);
                        workspaceBuild = os_path_join h workspace ''Build''
                    in case for_testFiles h workspace workspaceBuild buildOutputBase testList s1 of
                         (Some r, s2) \<Rightarrow> Inr (r, s2)
                       | (None, s2) \<Rightarrow>
                           if testList = [] then Inl (UnboundLocalError ''totalCoverageFile'', s2)
                           else
                             stage h ''OpenCppCoverage''
                               (''--export_type cobertura:'' @ os_path_join h buildOutputBase ''coverage.xml'' @ '' '' @
                                ''--working_dir='' @ workspaceBuild @ '' '' @
                                ''--input_coverage='' @ os_path_join h buildOutputBase ''coverage.cov'' @ '' '')
                               ''UnitTest Coverage: Failed to generate cobertura format xml in single package.''
                               (\<lambda>s3. case glob_glob h
                                         (os_path_join h (os_path_join h (os_path_join h workspace ''Build'') ''**'')
                                            ''*Test*.exe.cov'') True s3 of
                                  (testCoverageList, s4) \<Rightarrow>
                                    (case for_testCoverages h workspaceBuild testCoverageList s4 of
                                       (Some r, s5) \<Rightarrow> Inr (r, s5)
                                     | (None, s5) \<Rightarrow>
                                         stage h ''OpenCppCoverage''
                                           (''--export_type cobertura:'' @ os_path_join h workspaceBuild ''coverage.xml'' @ '' '' @
                                            ''--working_dir='' @ workspaceBuild @ '' '' @
                                            ''--input_coverage='' @ os_path_join h workspaceBuild ''coverage.cov'')
                                           ''UnitTest Coverage: Failed to generate cobertura format xml.''
                                           (\<lambda>s6. Inr (0, s6)) s5))
                               s2))))"

section \<open>The driver \<^verbatim>\<open>do_post_build\<close> (lines 33 to 152)\<close>

definition no_tests_message :: string where
  "no_tests_message =
     ''UnitTest Coverage:\<newline>'' @
     ''  No unit tests discovered. Test coverage will not be generated.\<newline>'' @
     ''\<newline>'' @
     ''  Prevent this message by:\<newline>'' @
     ''  1. Adding host-based unit tests to this package\<newline>'' @
     ''  2. Ensuring tests have the word '' @ [CHR 0x22] @ ''Test'' @ [CHR 0x22] @ '' in their name\<newline>'' @
     ''  3. Disabling HostUnitTestCompilerPlugin in the package CI YAML file''"

fun for_old_results :: "'w host \<Rightarrow> string list \<Rightarrow> 'w state \<Rightarrow> ('w, unit) result" where
  "for_old_results h [] s = Inr ((), s)"
| "for_old_results h (old_result # rest) s =
     (case remove_file h old_result s of
        Inl e \<Rightarrow> Inl e
      | Inr (_, s') \<Rightarrow> for_old_results h rest s')"

text \<open>Lines 140 to 150: a coverage function that returns non-zero counts one failure.\<close>

definition code_coverage :: "'w host \<Rightarrow> build_env \<Rightarrow> 'w state \<Rightarrow> ('w, unit) result" where
  "code_coverage h env s =
     (if GetValue env ''CODE_COVERAGE'' \<noteq> Some ''FALSE'' then
        (if GetValue env ''TOOL_CHAIN_TAG'' = Some ''GCC5'' then
           (case gen_code_coverage_gcc h env s of
              Inl e \<Rightarrow> Inl e
            | Inr (ret, s') \<Rightarrow>
                Inr ((), if ret \<noteq> 0 then s'\<lparr>failure_count := failure_count s' + 1\<rparr> else s'))
         else
           (case GetValue env ''TOOL_CHAIN_TAG'' of
              None \<Rightarrow> Inl (AttributeError ''startswith'', s)
            | Some tool_chain_tag \<Rightarrow>
                if prefix ''VS'' tool_chain_tag then
                  (case gen_code_coverage_msvc h env s of
                     Inl e \<Rightarrow> Inl e
                   | Inr (ret, s') \<Rightarrow>
                       Inr ((), if ret \<noteq> 0 then s'\<lparr>failure_count := failure_count s' + 1\<rparr> else s'))
                else
                  Inr ((), logging INFO
                    ''Skipping code coverage. Currently, support GCC and MSVC compiler.'' s)))
      else Inr ((), s))"

text \<open>
  The loop over the architectures. Its value is what \<^verbatim>\<open>do_post_build\<close> returns: the
  \<^verbatim>\<open>return 0\<close> of line 106 when a test list is empty, \<^verbatim>\<open>failure_count\<close> when the loop
  ends (line 152).
\<close>

fun for_archs :: "'w host \<Rightarrow> build_env \<Rightarrow> string option \<Rightarrow> string list \<Rightarrow> 'w state \<Rightarrow> ('w, int) result" where
  "for_archs h env path [] s = Inr (failure_count s, s)"
| "for_archs h env path (arch # rest) s =
     (let s1 = logging SUBSECTION (''Testing for architecture: '' @ arch) s in
      case path of
        None \<Rightarrow> Inl (TypeError ''join'', s1)
      | Some path' \<Rightarrow>
         (let cp = os_path_join h path' arch in
          case glob_glob h (os_path_join h cp ''*.result.xml'') False s1 of
            (old_results, s2) \<Rightarrow>
             (case for_old_results h old_results s2 of
                Inl e \<Rightarrow> Inl e
              | Inr (_, s3) \<Rightarrow>
                 (case discover_tests h cp s3 of
                    Inl e \<Rightarrow> Inl e
                  | Inr (testList, s4) \<Rightarrow>
                      if testList = [] then Inr (0, logging WARNING no_tests_message s4)
                      else
                       (case for_tests h arch cp testList s4 of
                          Inl e \<Rightarrow> Inl e
                        | Inr (_, s5) \<Rightarrow>
                           (case code_coverage h env s5 of
                              Inl e \<Rightarrow> Inl e
                            | Inr (_, s6) \<Rightarrow> for_archs h env path rest s6))))))"

definition do_post_build :: "'w host \<Rightarrow> build_env \<Rightarrow> 'w state \<Rightarrow> ('w, int) result" where
  "do_post_build h env s =
     (if GetValue env ''CI_BUILD_TYPE'' \<noteq> Some ''host_unit_test'' then Inr (0, s)
      else
       (let s1 = logging SECTION ''Run Host based Unit Tests'' s;
            path = GetValue env ''BUILD_OUTPUT_BASE'';
            s2 = s1\<lparr>failure_count := 0\<rparr>;
            s3 = set_shell_var h ''GTEST_CATCH_EXCEPTIONS'' ''0'' s2;
            s4 = set_shell_var h ''ASAN_OPTIONS'' ''detect_leaks=0'' s3;
            s5 = set_shell_var h ''CMOCKA_MESSAGE_OUTPUT'' ''xml'' s4
        in case GetValue env ''TARGET_ARCH'' of
             None \<Rightarrow> Inl (AttributeError ''split'', s5)
           | Some target_arch \<Rightarrow> for_archs h env path (str_split target_arch) s5))"

section \<open>Notions the properties are stated with\<close>

text \<open>The state a call ends in, whether it returned or raised, and what it added to the trace.\<close>

definition final :: "('w, 'a) result \<Rightarrow> 'w state" where
  "final r = (case r of Inl (_, s) \<Rightarrow> s | Inr (_, s) \<Rightarrow> s)"

definition new_events :: "'w state \<Rightarrow> 'w state \<Rightarrow> event list" where
  "new_events s s' = drop (length (events s)) (events s')"

text \<open>
  The nodes tagged \<^verbatim>\<open>failure\<close> at the case level of a result document, each with its
  enclosing case, in document order; and the two lines the tally logs for one of them.
\<close>

definition case_failures :: "element \<Rightarrow> (element \<times> element) list" where
  "case_failures root =
     concat (map (\<lambda>suite.
       concat (map (\<lambda>tcase.
         map (\<lambda>result. (tcase, result)) (filter (\<lambda>result. tag result = ''failure'') (children tcase)))
         (children suite)))
       (children root))"

definition has_name :: "element \<times> element \<Rightarrow> bool" where
  "has_name cr = (map_of (attrib (fst cr)) ''name'' \<noteq> None)"

definition failure_log :: "'w host \<Rightarrow> string \<Rightarrow> element \<times> element \<Rightarrow> event list" where
  "failure_log h test cr =
     [Log WARNING (os_path_basename h test @ '' Test Failed''),
      Log WARNING (''  '' @ fstr (map_of (attrib (fst cr)) ''name'') @ '' - '' @ fstr (text_of (snd cr)))]"

definition add_failures :: "'w host \<Rightarrow> string \<Rightarrow> (element \<times> element) list \<Rightarrow> 'w state \<Rightarrow> 'w state" where
  "add_failures h test crs s =
     s\<lparr>events := events s @ concat (map (failure_log h test) crs),
       failure_count := failure_count s + int (length crs)\<rparr>"

text \<open>
  What the text of the pattern \<^verbatim>\<open>version (\d+)\.(\d+)\<close> says: a string matches when it
  is the word, a space, a non-empty run of digits, a dot and a second non-empty run of
  digits; a text contains a match when some substring matches.
\<close>

definition matches_version_pattern :: "string \<Rightarrow> bool" where
  "matches_version_pattern t \<longleftrightarrow>
     (\<exists>major minor. t = ''version '' @ major @ ''.'' @ minor \<and> major \<noteq> [] \<and> minor \<noteq> [] \<and>
        list_all isdigit major \<and> list_all isdigit minor)"

definition contains_version_match :: "string \<Rightarrow> bool" where
  "contains_version_match s \<longleftrightarrow> (\<exists>before t after. s = before @ t @ after \<and> matches_version_pattern t)"

text \<open>
  The result files a trace names: the values the test loop gives the two shell variables
  that tell a test binary where to write its results (lines 109 to 113). The value of
  \<^verbatim>\<open>GTEST_OUTPUT\<close> is the file name after the four characters \<^verbatim>\<open>xml:\<close>.
  \<open>names_archs A e\<close>: every result file that the entry \<open>e\<close> names ends with a dot, an
  architecture of \<open>A\<close> and \<^verbatim>\<open>.result.xml\<close>.
\<close>

fun result_file_of :: "event \<Rightarrow> string list" where
  "result_file_of (SetShellVar k v) =
     (if k = ''CMOCKA_XML_FILE'' then [v] else if k = ''GTEST_OUTPUT'' then [drop 4 v] else [])"
| "result_file_of e = []"

definition result_files :: "event list \<Rightarrow> string list" where
  "result_files evs = concat (map result_file_of evs)"

definition names_archs :: "string set \<Rightarrow> event \<Rightarrow> bool" where
  "names_archs A e \<longleftrightarrow>
     (\<forall>f \<in> set (result_file_of e). \<exists>a \<in> A. \<exists>x. f = x @ CHR ''.'' # a @ ''.result.xml'')"

text \<open>
  \<open>grows P s s'\<close>: the trace of \<open>s'\<close> is the trace of \<open>s\<close> followed by entries that all
  satisfy \<open>P\<close>.
\<close>

definition grows :: "(event \<Rightarrow> bool) \<Rightarrow> 'w state \<Rightarrow> 'w state \<Rightarrow> bool" where
  "grows P s s' \<longleftrightarrow> (\<exists>evs. events s' = events s @ evs \<and> list_all P evs)"

text \<open>
  The two parses that end a run: a document that is not well-formed, and a well-formed
  document with a failure node in a case without a \<^verbatim>\<open>name\<close>. An entry is \<open>sound\<close> when it
  is neither. \<open>uncaught s r\<close> describes a call that started in \<open>s\<close> and ended with \<open>r\<close>: a
  call that returns has added sound entries only; a call that raises has either added
  sound entries only, or it stopped at the first fatal parse with the matching exception
  (nothing after a malformed document, only log lines after a nameless case).
\<close>

fun fatal_parse :: "event \<Rightarrow> bool" where
  "fatal_parse (ParseXml f None) = True"
| "fatal_parse (ParseXml f (Some root)) = (\<not> list_all has_name (case_failures root))"
| "fatal_parse e = False"

definition sound :: "event \<Rightarrow> bool" where
  "sound e \<longleftrightarrow> \<not> fatal_parse e"

fun is_log :: "event \<Rightarrow> bool" where
  "is_log (Log lvl msg) = True"
| "is_log e = False"

fun is_io :: "event \<Rightarrow> bool" where
  "is_io (ParseXml f parsed) = False"
| "is_io (SetShellVar k v) = False"
| "is_io e = True"

definition uncaught :: "'w state \<Rightarrow> ('w, 'a) result \<Rightarrow> bool" where
  "uncaught s r \<longleftrightarrow>
     (case r of
        Inr (_, s') \<Rightarrow> grows sound s s'
      | Inl (e, s') \<Rightarrow>
          grows sound s s'
          \<or> (\<exists>s1 f. grows sound s s1 \<and> s' = emit (ParseXml f None) s1 \<and> e = ParseError f)
          \<or> (\<exists>s1 f root. grows sound s s1 \<and> \<not> list_all has_name (case_failures root) \<and>
                grows is_log (emit (ParseXml f (Some root)) s1) s' \<and> e = KeyError ''name''))"

text \<open>
  Stopping at the first command that fails. \<open>stops last_unchecked s r\<close> describes a coverage
  function that started in \<open>s\<close> and ended with \<open>r\<close>: either every command it ran exited
  with 0; or the last command it ran is the only one with a non-zero exit code, the error
  log follows it and the function returns 1; or (only when \<open>last_unchecked\<close> holds) the
  last command is \<^verbatim>\<open>lcov_cobertura\<close>, it exited with a non-zero code, and the function
  returns 0 all the same.
\<close>

fun zero_exit :: "event \<Rightarrow> bool" where
  "zero_exit (Run cmd params ret) = (ret = 0)"
| "zero_exit e = True"

definition stops :: "bool \<Rightarrow> 'w state \<Rightarrow> ('w, int) result \<Rightarrow> bool" where
  "stops last_unchecked s r \<longleftrightarrow>
     grows zero_exit s (final r)
     \<or> (\<exists>s1 cmd params ret msg. grows zero_exit s s1 \<and> ret \<noteq> 0 \<and>
           r = Inr (1, logging ERROR msg (emit (Run cmd params ret) s1)))
     \<or> (last_unchecked \<and>
         (\<exists>s1 params ret. grows zero_exit s s1 \<and> ret \<noteq> 0 \<and>
            r = Inr (0, emit (Run ''lcov_cobertura'' params ret) s1)))"

text \<open>
  The same for a loop that returns from the function on a failing command: the loop either
  ran to its end with zero exit codes only, or returned 1 right after the error log of the
  one command that failed.
\<close>

definition loop_stops :: "'w state \<Rightarrow> int option \<times> 'w state \<Rightarrow> bool" where
  "loop_stops s rs \<longleftrightarrow>
     (fst rs = None \<and> grows zero_exit s (snd rs))
     \<or> (fst rs = Some 1 \<and>
         (\<exists>s1 cmd params ret msg. grows zero_exit s s1 \<and> ret \<noteq> 0 \<and>
            snd rs = logging ERROR msg (emit (Run cmd params ret) s1)))"

section \<open>A POSIX host with a fixed file system\<close>

text \<open>
  \<^verbatim>\<open>posixpath.join\<close> and \<^verbatim>\<open>posixpath.basename\<close>, and a host for running the plugin on
  concrete inputs: the globs, the regular files with their modes, the commands with their
  exit codes and output, and the result documents are given as tables; a command that is
  not in the table exits with 0 and prints nothing.
\<close>

definition posixpath_join :: "string \<Rightarrow> string \<Rightarrow> string" where
  "posixpath_join a b =
     (if prefix ''/'' b then b
      else if a = [] \<or> last a = CHR ''/'' then a @ b
      else a @ ''/'' @ b)"

definition posixpath_basename :: "string \<Rightarrow> string" where
  "posixpath_basename p = rev (takeWhile (\<lambda>c. c \<noteq> CHR ''/'') (rev p))"

definition posix_host ::
  "(string \<times> string list) list \<Rightarrow> (string \<times> nat) list \<Rightarrow> (string \<times> int \<times> string) list \<Rightarrow>
   (string \<times> element) list \<Rightarrow> unit host" where
  "posix_host globs files cmds docs =
     \<lparr> GetHostInfo_os = ''Linux'',
       run_cmd = (\<lambda>cmd params workingdir w.
          case map_of cmds (cmd @ '' '' @ params) of
            Some (ret, out) \<Rightarrow> (ret, out, w)
          | None \<Rightarrow> (0, [], w)),
       glob_files = (\<lambda>pattern recursive w. case map_of globs pattern of Some l \<Rightarrow> l | None \<Rightarrow> []),
       os_path_isfile = (\<lambda>p w. map_of files p \<noteq> None),
       os_stat_st_mode = (\<lambda>p w. case map_of files p of Some m \<Rightarrow> m | None \<Rightarrow> 0),
       os_remove = (\<lambda>p w. Some w),
       xml_parse = (\<lambda>p w. map_of docs p),
       shell_set = (\<lambda>k v w. w),
       os_path_join = posixpath_join,
       os_path_basename = posixpath_basename,
       os_sep = CHR ''/'' \<rparr>"

definition start :: "unit state" where
  "start = \<lparr> world = (), events = [], failure_count = 0 \<rparr>"

text \<open>
  What the three tally loops do with the failure nodes of a document, in closed form: they
  count and log every node while the enclosing cases have a \<^verbatim>\<open>name\<close>, and raise at the
  first node whose case has none, after the first of its two log lines.
\<close>

definition tally_outcome :: "'w host \<Rightarrow> string \<Rightarrow> (element \<times> element) list \<Rightarrow> 'w state \<Rightarrow> ('w, unit) result" where
  "tally_outcome h test crs s =
     (if list_all has_name crs then Inr ((), add_failures h test crs s)
      else Inl (KeyError ''name'',
                logging WARNING (os_path_basename h test @ '' Test Failed'')
                  (add_failures h test (takeWhile has_name crs) s)))"

section \<open>Concrete inputs\<close>

text \<open>
  Three result documents: one with two failures in named cases, one whose only failure
  sits in a case without a \<^verbatim>\<open>name\<close>, one with a named failure followed by an unnamed one.
\<close>

definition sample_doc :: element where
  "sample_doc =
     Element ''testsuites'' [] None
       [Element ''testsuite'' [(''name'', ''Suite'')] None
          [Element ''testcase'' [(''name'', ''TestBar'')] None
             [Element ''failure'' [] (Some ''expected 1'') []],
           Element ''testcase'' [(''name'', ''TestOk'')] None [],
           Element ''testcase'' [(''name'', ''TestBaz'')] None
             [Element ''system-out'' [] None [], Element ''failure'' [] None []]]]"

definition nameless_doc :: element where
  "nameless_doc =
     Element ''testsuites'' [] None
       [Element ''testsuite'' [] None
          [Element ''testcase'' [(''classname'', ''C'')] None
             [Element ''failure'' [] (Some ''boom'') []]]]"

definition mixed_doc :: element where
  "mixed_doc =
     Element ''testsuites'' [] None
       [Element ''testsuite'' [] None
          [Element ''testcase'' [(''name'', ''First'')] None
             [Element ''failure'' [] (Some ''one'') []],
           Element ''testcase'' [] None
             [Element ''failure'' [] (Some ''two'') []],
           Element ''testcase'' [(''name'', ''Third'')] None
             [Element ''failure'' [] (Some ''three'') []]]]"

text \<open>
  A build directory \<^verbatim>\<open>/b/X64\<close> with two executable tests: \<^verbatim>\<open>FooTest\<close> exits with 0 and
  leaves one result document, \<^verbatim>\<open>BarTest\<close> exits with 2. The file
  \<^verbatim>\<open>/b/X64/Broken.GTEST.X64.result.xml\<close> is not in the table of documents: it is not
  well-formed.
\<close>

definition demo_host :: "unit host" where
  "demo_host = posix_host
     [(''/b/X64/*Test*'', [''/b/X64/FooTest'', ''/b/X64/BarTest'']),
      (''/b/X64/FooTest.*.X64.result.xml'', [''/b/X64/FooTest.GTEST.X64.result.xml''])]
     [(''/b/X64/FooTest'', 493), (''/b/X64/BarTest'', 493)]
     [(quoted ''/b/X64/BarTest'' @ '' '', (2, []))]
     [(''/b/X64/FooTest.GTEST.X64.result.xml'', sample_doc),
      (''/b/X64/Nameless.GTEST.X64.result.xml'', nameless_doc),
      (''/b/X64/Mixed.GTEST.X64.result.xml'', mixed_doc)]"

definition demo_env :: build_env where
  "demo_env = map_of
     [(''CI_BUILD_TYPE'', ''host_unit_test''), (''BUILD_OUTPUT_BASE'', ''/b''),
      (''TARGET_ARCH'', ''X64''), (''CODE_COVERAGE'', ''FALSE''),
      (''TOOL_CHAIN_TAG'', ''GCC5''), (''WORKSPACE'', ''/w'')]"

text \<open>A host on which \<^verbatim>\<open>lcov --version\<close> exits with the given code and prints the given text.\<close>

definition lcov_host :: "int \<Rightarrow> string \<Rightarrow> unit host" where
  "lcov_host ret out = posix_host [] [] [(''lcov --version'', (ret, out))] []"

definition gcc_env :: build_env where
  "gcc_env = map_of
     [(''CI_BUILD_TYPE'', ''host_unit_test''), (''BUILD_OUTPUT_BASE'', ''/w/Build/Pkg''),
      (''TARGET_ARCH'', ''X64''), (''TOOL_CHAIN_TAG'', ''GCC5''), (''WORKSPACE'', ''/w'')]"

text \<open>
  What claim C8 asks of one trace entry: the command line of an \<^verbatim>\<open>lcov\<close> invocation
  contains the text of the compatibility flag exactly when the major version is at least 2.
\<close>

definition flag_ok :: "nat \<Rightarrow> event \<Rightarrow> bool" where
  "flag_ok major e \<longleftrightarrow>
     (\<forall>params ret. e = Run ''lcov'' params ret \<longrightarrow>
        (sublist ''--ignore-errors mismatch'' params \<longleftrightarrow> 2 \<le> major))"





text \<open>
  Two architectures: \<^verbatim>\<open>/b/IA32\<close> holds one executable test that exits with 2, \<^verbatim>\<open>/b/X64\<close>
  holds no test.
\<close>

definition two_arch_host :: "unit host" where
  "two_arch_host = posix_host
     [(''/b/IA32/*Test*'', [''/b/IA32/BarTest''])]
     [(''/b/IA32/BarTest'', 493)]
     [(quoted ''/b/IA32/BarTest'' @ '' '', (2, []))]
     []"

definition arch_env :: "string \<Rightarrow> build_env" where
  "arch_env target_arch = map_of
     [(''CI_BUILD_TYPE'', ''host_unit_test''), (''BUILD_OUTPUT_BASE'', ''/b''),
      (''TARGET_ARCH'', target_arch), (''CODE_COVERAGE'', ''FALSE''),
      (''TOOL_CHAIN_TAG'', ''GCC5''), (''WORKSPACE'', ''/w'')]"

text \<open>
  A host on which lcov 1.16 and every stage of the lcov pipeline succeed, except the last
  one (the conversion of the workspace aggregate to Cobertura XML), which exits with 1.
\<close>

definition last_stage_fails_host :: "unit host" where
  "last_stage_fails_host = posix_host [] []
     [(''lcov --version'', (0, ''lcov: LCOV version 1.16'')),
      (''lcov_cobertura '' @ all_coverage_info ''/w'' @ '' --excludes '' @ excludes @ '' -o '' @
         workspace_coverage_xml ''/w'', (1, []))]
     []"

text \<open>
  A relative build directory \<^verbatim>\<open>out/X64\<close> whose entry \<^verbatim>\<open>MyTest\<close> is a directory, while
  \<^verbatim>\<open>out/X64/out/X64/MyTest\<close> is an executable regular file.
\<close>

definition relative_host :: "unit host" where
  "relative_host = posix_host
     [(''out/X64/*Test*'', [''out/X64/MyTest''])]
     [(''out/X64/out/X64/MyTest'', 493)]
     [] []"

text \<open>
  A package built for two architectures, with one test binary each that exits with 0, on
  a host with lcov 1.16 on which every coverage command succeeds; coverage is enabled.
\<close>

definition both_arch_host :: "unit host" where
  "both_arch_host = posix_host
     [(''/b/IA32/*Test*'', [''/b/IA32/FooTest'']), (''/b/X64/*Test*'', [''/b/X64/FooTest''])]
     [(''/b/IA32/FooTest'', 493), (''/b/X64/FooTest'', 493)]
     [(''lcov --version'', (0, ''lcov: LCOV version 1.16''))]
     []"

definition coverage_env :: build_env where
  "coverage_env = map_of
     [(''CI_BUILD_TYPE'', ''host_unit_test''), (''BUILD_OUTPUT_BASE'', ''/b''),
      (''TARGET_ARCH'', ''IA32 X64''), (''TOOL_CHAIN_TAG'', ''GCC5''), (''WORKSPACE'', ''/w'')]"

text \<open>
  Two architecture names with dots and slashes. The build-output root is the directory
  \<^verbatim>\<open>/BTest.GTEST.ATest.GTEST.\<close>; it holds the test binary \<^verbatim>\<open>ATest\<close> and the directory
  \<^verbatim>\<open>ATest.GTEST.\<close>, which holds the test binary \<^verbatim>\<open>BTest\<close>. The first architecture is the
  absolute name \<^verbatim>\<open>/BTest.GTEST.ATest.GTEST.\<close>, which \<^verbatim>\<open>os.path.join\<close> keeps as it is,
  the second is \<^verbatim>\<open>ATest.GTEST.\<close>.
\<close>

definition dotted_arch_host :: "unit host" where
  "dotted_arch_host = posix_host
     [(''/BTest.GTEST.ATest.GTEST./*Test*'',
         [''/BTest.GTEST.ATest.GTEST./ATest'', ''/BTest.GTEST.ATest.GTEST./ATest.GTEST.'']),
      (''/BTest.GTEST.ATest.GTEST./ATest.GTEST./*Test*'',
         [''/BTest.GTEST.ATest.GTEST./ATest.GTEST./BTest''])]
     [(''/BTest.GTEST.ATest.GTEST./ATest'', 493),
      (''/BTest.GTEST.ATest.GTEST./ATest.GTEST./BTest'', 493)]
     [] []"

definition dotted_arch_env :: build_env where
  "dotted_arch_env = map_of
     [(''CI_BUILD_TYPE'', ''host_unit_test''), (''BUILD_OUTPUT_BASE'', ''/BTest.GTEST.ATest.GTEST.''),
      (''TARGET_ARCH'', ''/BTest.GTEST.ATest.GTEST. ATest.GTEST.''), (''CODE_COVERAGE'', ''FALSE''),
      (''TOOL_CHAIN_TAG'', ''GCC5''), (''WORKSPACE'', ''/w'')]"

text \<open>
  The test the discovery loop applies to a glob entry \<open>a\<close>: the path
  \<^verbatim>\<open>os.path.join(cp, a)\<close> is a regular file with one of the three execute bits set.
\<close>

definition accepted :: "'w host \<Rightarrow> string \<Rightarrow> 'w \<Rightarrow> string \<Rightarrow> bool" where
  "accepted h cp w a \<longleftrightarrow>
     os_path_isfile h (os_path_join h cp a) w \<and>
     os_stat_st_mode h (os_path_join h cp a) w AND (S_IEXEC OR S_IXGRP OR S_IXOTH) \<noteq> 0"

text \<open>The trace entries of discovery: the glob, and log lines below warning level.\<close>

fun is_diagnostic :: "event \<Rightarrow> bool" where
  "is_diagnostic (Glob pat) = True"
| "is_diagnostic (Log DEBUG msg) = True"
| "is_diagnostic (Log INFO msg) = True"
| "is_diagnostic e = False"

text \<open>
  The build directory \<^verbatim>\<open>/b/X64\<close> with one executable test \<^verbatim>\<open>FooTest\<close> that exits with 0
  and leaves one result file: not well-formed on \<open>broken_host\<close>, and \<open>mixed_doc\<close> on
  \<open>nameless_host\<close>.
\<close>

definition broken_host :: "unit host" where
  "broken_host = posix_host
     [(''/b/X64/*Test*'', [''/b/X64/FooTest'']),
      (''/b/X64/FooTest.*.X64.result.xml'', [''/b/X64/FooTest.GTEST.X64.result.xml''])]
     [(''/b/X64/FooTest'', 493)]
     []
     []"

definition nameless_host :: "unit host" where
  "nameless_host = posix_host
     [(''/b/X64/*Test*'', [''/b/X64/FooTest'']),
      (''/b/X64/FooTest.*.X64.result.xml'', [''/b/X64/FooTest.GTEST.X64.result.xml''])]
     [(''/b/X64/FooTest'', 493)]
     []
     [(''/b/X64/FooTest.GTEST.X64.result.xml'', mixed_doc)]"

section \<open>Properties\<close>

lemmas prim_defs =
  GetValue_def emit_def logging_def set_shell_var_def RunCmd_def glob_glob_def remove_file_def
  fstr_def final_def new_events_def

lemmas host_defs =
  posix_host_def posixpath_join_def posixpath_basename_def start_def quoted_def
  cmocka_xml_file_def gtest_xml_file_def file_match_pattern_def

subsection \<open>The tally in closed form\<close>

lemma new_events_append: "events s' = events s @ evs \<Longrightarrow> new_events s s' = evs"
  by (simp add: new_events_def)

lemma add_failures_Nil: "add_failures h test [] s = s"
  by (simp add: add_failures_def)

lemma add_failures_append:
  "add_failures h test (xs @ ys) s = add_failures h test ys (add_failures h test xs s)"
  by (simp add: add_failures_def)

lemma tally_outcome_Nil: "tally_outcome h test [] s = Inr ((), s)"
  by (simp add: tally_outcome_def add_failures_Nil)

lemma tally_outcome_append:
  "tally_outcome h test (xs @ ys) s =
     (case tally_outcome h test xs s of Inl e \<Rightarrow> Inl e | Inr (_, s') \<Rightarrow> tally_outcome h test ys s')"
proof (cases "list_all has_name xs")
  case True
  then have "takeWhile has_name (xs @ ys) = xs @ takeWhile has_name ys"
    by (simp add: list_all_iff takeWhile_append2)
  with True show ?thesis
    by (simp add: tally_outcome_def add_failures_append)
next
  case False
  then have "takeWhile has_name (xs @ ys) = takeWhile has_name xs"
    by (auto simp: list_all_iff takeWhile_append1)
  with False show ?thesis
    by (simp add: tally_outcome_def)
qed

lemma tally_outcome_Cons:
  "tally_outcome h test (cr # crs) s =
     (if has_name cr then tally_outcome h test crs (add_failures h test [cr] s)
      else Inl (KeyError ''name'', logging WARNING (os_path_basename h test @ '' Test Failed'') s))"
  using tally_outcome_append [of h test "[cr]" crs s]
  by (simp add: tally_outcome_def add_failures_Nil)

lemma for_results_outcome:
  "for_results h test c rs s =
     tally_outcome h test (map (Pair c) (filter (\<lambda>r. tag r = ''failure'') rs)) s"
proof (induction rs arbitrary: s)
  case Nil
  show ?case by (simp add: tally_outcome_Nil)
next
  case (Cons r rs)
  show ?case
  proof (cases "tag r = ''failure''")
    case False
    with Cons show ?thesis by simp
  next
    case True
    show ?thesis
    proof (cases "map_of (attrib c) ''name''")
      case None
      with True show ?thesis
        by (simp add: tally_outcome_Cons has_name_def)
    next
      case (Some name)
      have "add_failures h test [(c, r)] s =
              (logging WARNING (''  '' @ name @ '' - '' @ fstr (text_of r))
                 (logging WARNING (os_path_basename h test @ '' Test Failed'') s))
              \<lparr>failure_count := failure_count s + 1\<rparr>"
        using Some by (simp add: add_failures_def failure_log_def logging_def emit_def fstr_def)
      with True Some Cons show ?thesis
        by (simp add: tally_outcome_Cons has_name_def logging_def emit_def)
    qed
  qed
qed

lemma for_cases_outcome:
  "for_cases h test cs s =
     tally_outcome h test
       (concat (map (\<lambda>c. map (Pair c) (filter (\<lambda>r. tag r = ''failure'') (children c))) cs)) s"
proof (induction cs arbitrary: s)
  case Nil
  show ?case by (simp add: tally_outcome_Nil)
next
  case (Cons c cs)
  show ?case
    by (simp add: tally_outcome_append for_results_outcome Cons split: sum.splits)
qed

lemma for_suites_outcome:
  "for_suites h test (children root) s = tally_outcome h test (case_failures root) s"
proof -
  have "for_suites h test ss s =
     tally_outcome h test
       (concat (map (\<lambda>suite. concat (map (\<lambda>c. map (Pair c) (filter (\<lambda>r. tag r = ''failure'') (children c)))
          (children suite))) ss)) s" for ss
  proof (induction ss arbitrary: s)
    case Nil
    show ?case by (simp add: tally_outcome_Nil)
  next
    case (Cons x xs)
    show ?case
      by (simp add: tally_outcome_append for_cases_outcome Cons split: sum.splits)
  qed
  then show ?thesis by (simp add: case_failures_def)
qed

lemma parse_result_file_outcome:
  "parse_result_file h test f s =
     (case xml_parse h f (world s) of
        None \<Rightarrow> Inl (ParseError f, emit (ParseXml f None) s)
      | Some root \<Rightarrow> tally_outcome h test (case_failures root) (emit (ParseXml f (Some root)) s))"
  by (simp add: parse_result_file_def for_suites_outcome emit_def Let_def split: option.splits)

subsection \<open>Result documents and the failure count\<close>

text \<open>
  Claim C4, as amended. For a well-formed result document in which every case that encloses
  a node tagged \<^verbatim>\<open>failure\<close> carries a \<^verbatim>\<open>name\<close> attribute, parsing the document
  increases the failure count by exactly the number \<open>k\<close> of such nodes, and logs for each of
  them, in document order, the test's base name and then the case's name with the node's
  text.
\<close>

theorem parse_counts_failures:
  assumes "xml_parse h xml_result_file (world s) = Some root"
      and "list_all has_name (case_failures root)"
  shows "\<exists>s'. parse_result_file h test xml_result_file s = Inr ((), s')
           \<and> failure_count s' = failure_count s + int (length (case_failures root))
           \<and> new_events s s' =
               ParseXml xml_result_file (Some root) # concat (map (failure_log h test) (case_failures root))"
proof -
  let ?s' = "add_failures h test (case_failures root) (emit (ParseXml xml_result_file (Some root)) s)"
  have "parse_result_file h test xml_result_file s = Inr ((), ?s')"
    using assms by (simp add: parse_result_file_outcome tally_outcome_def)
  moreover have "failure_count ?s' = failure_count s + int (length (case_failures root))"
    by (simp add: add_failures_def emit_def)
  moreover have "new_events s ?s' =
      ParseXml xml_result_file (Some root) # concat (map (failure_log h test) (case_failures root))"
    by (rule new_events_append) (simp add: add_failures_def emit_def)
  ultimately show ?thesis by blast
qed

theorem parse_counts_failures_witness:
  "xml_parse demo_host ''/b/X64/FooTest.GTEST.X64.result.xml'' (world start) = Some sample_doc
   \<and> list_all has_name (case_failures sample_doc)
   \<and> (\<exists>s'. parse_result_file demo_host ''/b/X64/FooTest'' ''/b/X64/FooTest.GTEST.X64.result.xml'' start
               = Inr ((), s')
          \<and> failure_count s' = 2
          \<and> new_events start s' =
              [ParseXml ''/b/X64/FooTest.GTEST.X64.result.xml'' (Some sample_doc),
               Log WARNING ''FooTest Test Failed'', Log WARNING ''  TestBar - expected 1'',
               Log WARNING ''FooTest Test Failed'', Log WARNING ''  TestBaz - None''])"
proof -
  have p: "xml_parse demo_host ''/b/X64/FooTest.GTEST.X64.result.xml'' (world start) = Some sample_doc"
    by (simp add: demo_host_def host_defs)
  have cf: "case_failures sample_doc =
      [(Element ''testcase'' [(''name'', ''TestBar'')] None [Element ''failure'' [] (Some ''expected 1'') []],
        Element ''failure'' [] (Some ''expected 1'') []),
       (Element ''testcase'' [(''name'', ''TestBaz'')] None
          [Element ''system-out'' [] None [], Element ''failure'' [] None []],
        Element ''failure'' [] None [])]"
    by (simp add: case_failures_def sample_doc_def)
  have n: "list_all has_name (case_failures sample_doc)"
    by (simp add: cf has_name_def)
  have b: "os_path_basename demo_host ''/b/X64/FooTest'' = ''FooTest''"
    by (simp add: demo_host_def host_defs)
  show ?thesis
    using p n parse_counts_failures [OF p n, of "''/b/X64/FooTest''"]
    by (simp add: cf failure_log_def fstr_def b start_def)
qed

text \<open>
  Claim C4 as stated fails: \<open>nameless_doc\<close> is well-formed and has one failure node at the
  case level, but parsing it raises and leaves the count where it was.
\<close>

theorem parse_counts_failures_counterexample:
  "xml_parse demo_host ''/b/X64/Nameless.GTEST.X64.result.xml'' (world start) = Some nameless_doc
   \<and> length (case_failures nameless_doc) = 1
   \<and> parse_result_file demo_host ''/b/X64/Nameless'' ''/b/X64/Nameless.GTEST.X64.result.xml'' start
       = Inl (KeyError ''name'',
              start\<lparr>events := [ParseXml ''/b/X64/Nameless.GTEST.X64.result.xml'' (Some nameless_doc),
                                Log WARNING ''Nameless Test Failed'']\<rparr>)
   \<and> failure_count start = 0"
  by (simp add: parse_result_file_def demo_host_def host_defs nameless_doc_def case_failures_def
      prim_defs)

subsection \<open>A test binary that exits with a non-zero code\<close>

text \<open>
  Claim C5. When the spawned test process exits with a non-zero code, \<^verbatim>\<open>run_test\<close>
  returns with the failure count increased by exactly 1; what it did is exactly: set the two
  shell variables, run the binary, log the error (so no glob for result files and no XML
  parse); and the loop goes on with the next binary.
\<close>

theorem nonzero_exit_counts_one_failure:
  assumes run: "RunCmd h (quoted test) [] (Some cp)
                 (set_shell_var h ''GTEST_OUTPUT'' (''xml:'' @ gtest_xml_file test arch)
                   (set_shell_var h ''CMOCKA_XML_FILE'' (cmocka_xml_file test arch) s)) = (ret, out, s3)"
      and nonzero: "ret \<noteq> 0"
  shows "\<exists>s'. run_test h arch cp test s = Inr ((), s')
           \<and> failure_count s' = failure_count s + 1
           \<and> new_events s s' =
               [SetShellVar ''CMOCKA_XML_FILE'' (cmocka_xml_file test arch),
                SetShellVar ''GTEST_OUTPUT'' (''xml:'' @ gtest_xml_file test arch),
                Run (quoted test) [] ret,
                Log ERROR (''UnitTest Execution Error: '' @ os_path_basename h test)]
           \<and> for_tests h arch cp (test # rest) s = for_tests h arch cp rest s'"
proof -
  let ?s' = "(logging ERROR (''UnitTest Execution Error: '' @ os_path_basename h test) s3)
               \<lparr>failure_count := failure_count s3 + 1\<rparr>"
  have rt: "run_test h arch cp test s = Inr ((), ?s')"
    using run nonzero by (simp add: run_test_def Let_def logging_def emit_def)
  have s3: "failure_count s3 = failure_count s"
           "events s3 = events s @ [SetShellVar ''CMOCKA_XML_FILE'' (cmocka_xml_file test arch),
                SetShellVar ''GTEST_OUTPUT'' (''xml:'' @ gtest_xml_file test arch),
                Run (quoted test) [] ret]"
    using run by (auto simp: RunCmd_def set_shell_var_def emit_def split: prod.splits)
  have "new_events s ?s' = [SetShellVar ''CMOCKA_XML_FILE'' (cmocka_xml_file test arch),
                SetShellVar ''GTEST_OUTPUT'' (''xml:'' @ gtest_xml_file test arch),
                Run (quoted test) [] ret,
                Log ERROR (''UnitTest Execution Error: '' @ os_path_basename h test)]"
    by (rule new_events_append) (simp add: s3 logging_def emit_def)
  moreover have "failure_count ?s' = failure_count s + 1"
    by (simp add: s3 logging_def emit_def)
  moreover have "for_tests h arch cp (test # rest) s = for_tests h arch cp rest ?s'"
    by (simp add: rt)
  ultimately show ?thesis using rt by blast
qed

theorem nonzero_exit_counts_one_failure_witness:
  "(2::int) \<noteq> 0
   \<and> (\<exists>s'. run_test demo_host ''X64'' ''/b/X64'' ''/b/X64/BarTest'' start = Inr ((), s')
          \<and> failure_count s' = 1
          \<and> new_events start s' =
              [SetShellVar ''CMOCKA_XML_FILE'' ''/b/X64/BarTest.CMOCKA.%g.X64.result.xml'',
               SetShellVar ''GTEST_OUTPUT'' ''xml:/b/X64/BarTest.GTEST.X64.result.xml'',
               Run (quoted ''/b/X64/BarTest'') [] 2,
               Log ERROR ''UnitTest Execution Error: BarTest'']
          \<and> for_tests demo_host ''X64'' ''/b/X64'' [''/b/X64/BarTest'', ''/b/X64/FooTest''] start
              = for_tests demo_host ''X64'' ''/b/X64'' [''/b/X64/FooTest''] s')"
proof -
  have run: "RunCmd demo_host (quoted ''/b/X64/BarTest'') [] (Some ''/b/X64'')
               (set_shell_var demo_host ''GTEST_OUTPUT'' (''xml:'' @ gtest_xml_file ''/b/X64/BarTest'' ''X64'')
                 (set_shell_var demo_host ''CMOCKA_XML_FILE'' (cmocka_xml_file ''/b/X64/BarTest'' ''X64'') start))
             = (2, [], start\<lparr>events :=
                  [SetShellVar ''CMOCKA_XML_FILE'' ''/b/X64/BarTest.CMOCKA.%g.X64.result.xml'',
                   SetShellVar ''GTEST_OUTPUT'' ''xml:/b/X64/BarTest.GTEST.X64.result.xml'',
                   Run (quoted ''/b/X64/BarTest'') [] 2]\<rparr>)"
    by (simp add: demo_host_def host_defs prim_defs)
  have nz: "(2::int) \<noteq> 0" by simp
  have fc: "failure_count start = 0" by (simp add: start_def)
  have b: "os_path_basename demo_host ''/b/X64/BarTest'' = ''BarTest''"
    by (simp add: demo_host_def host_defs)
  show ?thesis
    using nonzero_exit_counts_one_failure [OF run nz, of "[''/b/X64/FooTest'']"]
    by (simp add: b cmocka_xml_file_def gtest_xml_file_def fc del: for_tests.simps)
qed

subsection \<open>The lcov version query\<close>

text \<open>
  The search function of the model finds a match exactly when the text contains a substring
  of the shape the pattern describes.
\<close>

lemma dot_not_digit: "\<not> isdigit (CHR ''.'')"
  by (simp add: isdigit_def)

lemma match_version_at_complete:
  assumes "major \<noteq> []" "minor \<noteq> []" "list_all isdigit major" "list_all isdigit minor"
  shows "match_version_at (''version '' @ major @ ''.'' @ minor @ rest) \<noteq> None"
proof -
  have tw: "takeWhile isdigit (major @ CHR ''.'' # minor @ rest) = major"
    using assms(3) dot_not_digit by (simp add: list_all_iff takeWhile_tail)
  have dw: "dropWhile isdigit (major @ CHR ''.'' # minor @ rest) = CHR ''.'' # minor @ rest"
    using assms(3) dot_not_digit by (simp add: list_all_iff dropWhile_append2)
  have "takeWhile isdigit (minor @ rest) \<noteq> []"
    using assms(2,4) by (cases minor) (auto)
  then show ?thesis
    using assms(1) tw dw by (simp add: match_version_at_def Let_def)
qed

lemma match_version_at_sound:
  assumes "match_version_at s = Some (major, minor)"
  shows "\<exists>rest. s = ''version '' @ major @ ''.'' @ minor @ rest \<and> major \<noteq> [] \<and> minor \<noteq> []
           \<and> list_all isdigit major \<and> list_all isdigit minor"
proof -
  from assms have pre: "prefix ''version '' s"
    by (auto simp: match_version_at_def split: if_splits)
  then obtain r where s: "s = ''version '' @ r"
    by (auto simp: prefix_def)
  have r: "drop 8 s = r" by (simp add: s)
  from assms pre r obtain r2 where
    mj: "major = takeWhile isdigit r" "major \<noteq> []" and
    dw: "dropWhile isdigit r = CHR ''.'' # r2" and
    mn: "minor = takeWhile isdigit r2" "minor \<noteq> []"
    by (auto simp: match_version_at_def Let_def split: if_splits list.splits)
  have "r = major @ CHR ''.'' # r2"
    using takeWhile_dropWhile_id [of isdigit r] mj(1) dw by simp
  moreover have "r2 = minor @ dropWhile isdigit r2"
    using mn(1) by simp
  ultimately have "s = ''version '' @ major @ ''.'' @ minor @ dropWhile isdigit r2"
    using s by simp
  moreover have "list_all isdigit major" "list_all isdigit minor"
    using mj(1) mn(1) by (auto simp: list_all_iff dest: set_takeWhileD)
  ultimately show ?thesis using mj(2) mn(2) by blast
qed

lemma re_search_version_at: "match_version_at t \<noteq> None \<Longrightarrow> re_search_version t \<noteq> None"
  by (cases t) (auto simp: match_version_at_def)

lemma re_search_version_skip: "re_search_version t \<noteq> None \<Longrightarrow> re_search_version (before @ t) \<noteq> None"
  by (induction before) (auto split: option.splits)

lemma re_search_version_complete:
  assumes "contains_version_match s"
  shows "re_search_version s \<noteq> None"
proof -
  from assms obtain before major minor rest where
    s: "s = before @ (''version '' @ major @ ''.'' @ minor) @ rest" and
    d: "major \<noteq> []" "minor \<noteq> []" "list_all isdigit major" "list_all isdigit minor"
    unfolding contains_version_match_def matches_version_pattern_def by blast
  have "match_version_at (''version '' @ major @ ''.'' @ minor @ rest) \<noteq> None"
    by (rule match_version_at_complete [OF d])
  then have "re_search_version (''version '' @ major @ ''.'' @ minor @ rest) \<noteq> None"
    by (rule re_search_version_at)
  then have "re_search_version (before @ ''version '' @ major @ ''.'' @ minor @ rest) \<noteq> None"
    by (rule re_search_version_skip)
  then show ?thesis by (simp only: s append_assoc not_False_eq_True)
qed

lemma re_search_version_sound:
  "re_search_version t = Some g \<Longrightarrow> contains_version_match t"
proof (induction t)
  case Nil
  then show ?case by simp
next
  case (Cons c cs)
  show ?case
  proof (cases "match_version_at (c # cs)")
    case None
    with Cons have "contains_version_match cs" by simp
    then obtain before u after where "cs = before @ u @ after" "matches_version_pattern u"
      unfolding contains_version_match_def by blast
    then have "c # cs = (c # before) @ u @ after \<and> matches_version_pattern u" by simp
    then show ?thesis unfolding contains_version_match_def by blast
  next
    case (Some mm)
    obtain major minor where mm: "mm = (major, minor)" by (cases mm)
    from match_version_at_sound [OF Some [unfolded mm]] obtain rest where
      e: "c # cs = ''version '' @ major @ ''.'' @ minor @ rest" and
      d: "major \<noteq> []" "minor \<noteq> []" "list_all isdigit major" "list_all isdigit minor"
      by blast
    have "matches_version_pattern (''version '' @ major @ ''.'' @ minor)"
      unfolding matches_version_pattern_def using d by blast
    moreover have "c # cs = [] @ (''version '' @ major @ ''.'' @ minor) @ rest"
      unfolding e by (simp only: append_assoc append_Nil)
    ultimately show ?thesis unfolding contains_version_match_def by blast
  qed
qed

lemma re_search_version_None_iff:
  "re_search_version s = None \<longleftrightarrow> \<not> contains_version_match s"
  using re_search_version_complete [of s] re_search_version_sound [of s]
  by (cases "re_search_version s") auto


text \<open>
  Claim C9. \<^verbatim>\<open>get_lcov_version\<close> runs \<^verbatim>\<open>lcov --version\<close>. When the command exits with 0
  but its output contains no substring matching \<^verbatim>\<open>version <digits>.<digits>\<close>, the search
  gives no match and the call raises (\<^verbatim>\<open>AttributeError\<close> on \<^verbatim>\<open>.groups()\<close>); it
  returns \<^verbatim>\<open>None\<close> exactly when the exit code is non-zero.
\<close>

theorem lcov_version_None_only_on_exit_code:
  assumes run: "RunCmd h ''lcov'' ''--version'' None s = (ret, out, s1)"
  shows "(ret = 0 \<and> \<not> contains_version_match out \<longrightarrow>
            get_lcov_version h s = Inl (AttributeError ''groups'', s1))
       \<and> ((\<exists>s'. get_lcov_version h s = Inr (None, s')) \<longleftrightarrow> ret \<noteq> 0)"
proof -
  have "get_lcov_version h s = Inl (AttributeError ''groups'', s1)"
    if "ret = 0" "\<not> contains_version_match out"
    using that run by (simp add: get_lcov_version_def re_search_version_None_iff [symmetric])
  moreover have "(\<exists>s'. get_lcov_version h s = Inr (None, s')) \<longleftrightarrow> ret \<noteq> 0"
    using run by (auto simp: get_lcov_version_def split: option.splits)
  ultimately show ?thesis by blast
qed

theorem lcov_version_None_only_on_exit_code_witness:
  "\<not> contains_version_match ''lcov: LCOV''
   \<and> get_lcov_version (lcov_host 0 ''lcov: LCOV'') start =
       Inl (AttributeError ''groups'', start\<lparr>events := [Run ''lcov'' ''--version'' 0]\<rparr>)
   \<and> get_lcov_version (lcov_host 127 ''lcov: LCOV'') start =
       Inr (None, start\<lparr>events := [Run ''lcov'' ''--version'' 127]\<rparr>)"
proof -
  have n: "\<not> contains_version_match ''lcov: LCOV''"
    unfolding re_search_version_None_iff [symmetric]
    by (simp add: match_version_at_def)
  have r0: "RunCmd (lcov_host 0 ''lcov: LCOV'') ''lcov'' ''--version'' None start =
          (0, ''lcov: LCOV'', start\<lparr>events := [Run ''lcov'' ''--version'' 0]\<rparr>)"
    by (simp add: lcov_host_def host_defs prim_defs)
  have r1: "RunCmd (lcov_host 127 ''lcov: LCOV'') ''lcov'' ''--version'' None start =
          (127, ''lcov: LCOV'', start\<lparr>events := [Run ''lcov'' ''--version'' 127]\<rparr>)"
    by (simp add: lcov_host_def host_defs prim_defs)
  have "get_lcov_version (lcov_host 127 ''lcov: LCOV'') start =
       Inr (None, start\<lparr>events := [Run ''lcov'' ''--version'' 127]\<rparr>)"
    using r1 by (simp add: get_lcov_version_def)
  then show ?thesis
    using n lcov_version_None_only_on_exit_code [OF r0] by simp
qed

subsection \<open>What a call adds to the trace\<close>

lemma grows_refl: "grows P s s"
  by (simp add: grows_def)

lemma grows_trans: "grows P s s' \<Longrightarrow> grows P s' s'' \<Longrightarrow> grows P s s''"
  by (auto simp: grows_def)

lemma grows_emit: "P e \<Longrightarrow> grows P s (emit e s)"
  by (simp add: grows_def emit_def)

lemma grows_logging: "P (Log lvl msg) \<Longrightarrow> grows P s (logging lvl msg s)"
  by (simp add: logging_def grows_emit)

lemma grows_RunCmd:
  "RunCmd h cmd params wd s = (ret, out, s') \<Longrightarrow> P (Run cmd params ret) \<Longrightarrow> grows P s s'"
  by (auto simp: RunCmd_def grows_def emit_def split: prod.splits)

lemma grows_glob: "glob_glob h pat r s = (l, s') \<Longrightarrow> P (Glob pat) \<Longrightarrow> grows P s s'"
  by (auto simp: glob_glob_def grows_def emit_def)

lemma grows_remove: "P (Remove p) \<Longrightarrow> grows P s (final (remove_file h p s))"
  by (auto simp: remove_file_def grows_def emit_def final_def split: option.splits)

lemma grows_new_events: "grows P s s' \<Longrightarrow> list_all P (new_events s s')"
  by (auto simp: grows_def new_events_def)

lemma grows_stage:
  assumes "\<And>ret. P (Run cmd params ret)" and "P (Log ERROR msg)"
      and "\<And>s'. grows P s' (final (rest s'))"
  shows "grows P s (final (stage h cmd params msg rest s))"
proof -
  obtain ret out s' where r: "RunCmd h cmd params None s = (ret, out, s')"
    by (cases "RunCmd h cmd params None s") auto
  have g: "grows P s s'" using r assms(1) [of ret] by (rule grows_RunCmd)
  show ?thesis
  proof (cases "ret = 0")
    case True
    then have "stage h cmd params msg rest s = rest s'" by (simp add: stage_def r)
    with g assms(3) [of s'] show ?thesis by (auto intro: grows_trans)
  next
    case False
    then have "final (stage h cmd params msg rest s) = logging ERROR msg s'"
      by (simp add: stage_def r final_def)
    moreover have "grows P s' (logging ERROR msg s')"
      using assms(2) by (rule grows_logging)
    ultimately show ?thesis using g by (auto intro: grows_trans)
  qed
qed












lemma flag_ok_other [simp]:
  "flag_ok major (Log lvl msg)" "flag_ok major (Glob pat)" "flag_ok major (Remove p)"
  "flag_ok major (Run ''lcov_cobertura'' params ret)"
  by (simp_all add: flag_ok_def)


lemma gcc_tail_grows:
  assumes "\<And>p. P (Remove p)" and "\<And>params ret. P (Run ''lcov_cobertura'' params ret)"
  shows "grows P s9
     (final (case (if os_path_isfile h f (world s9) then remove_file h f s9 else Inr ((), s9)) of
               Inl e \<Rightarrow> Inl e
             | Inr (_, s10) \<Rightarrow>
                 (case RunCmd h ''lcov_cobertura'' params None s10 of
                    (ret, _, s11) \<Rightarrow> Inr (0::int, s11))))"
  using assms
  by (auto simp: remove_file_def RunCmd_def grows_def emit_def final_def split: option.splits prod.splits)

lemma gen_code_coverage_gcc_grows:
  assumes v: "get_lcov_version h (logging INFO ''Generating UnitTest code coverage'' s) = Inr (Some major, s1)"
      and l: "\<And>lvl msg. P (Log lvl msg)"
      and g: "\<And>pat. P (Glob pat)"
      and r: "\<And>p. P (Remove p)"
      and c: "\<And>params ret. P (Run ''lcov_cobertura'' params ret)"
      and f1: "\<And>ret. P (Run ''lcov''
                 (''--no-external --capture --initial --directory '' @ fstr (GetValue env ''BUILD_OUTPUT_BASE'') @
                  '' --output-file '' @ cov_base_info (fstr (GetValue env ''BUILD_OUTPUT_BASE'')) @
                  rc_branch @ lcov_error_settings major) ret)"
      and f2: "\<And>ret. P (Run ''lcov''
                 (''--capture --directory '' @ fstr (GetValue env ''BUILD_OUTPUT_BASE'') @ ''/ --output-file '' @
                  coverage_test_info (fstr (GetValue env ''BUILD_OUTPUT_BASE'')) @
                  rc_branch @ lcov_error_settings major) ret)"
      and f3: "\<And>ret. P (Run ''lcov''
                 (''--add-tracefile '' @ cov_base_info (fstr (GetValue env ''BUILD_OUTPUT_BASE'')) @
                  '' --add-tracefile '' @ coverage_test_info (fstr (GetValue env ''BUILD_OUTPUT_BASE'')) @
                  '' --output-file '' @ total_coverage_info (fstr (GetValue env ''BUILD_OUTPUT_BASE'')) @
                  rc_branch @ lcov_error_settings major) ret)"
      and f4: "\<And>w ret. P (Run ''lcov''
                 (concat (map (\<lambda>testCoverage. '' --add-tracefile '' @ testCoverage)
                    (glob_files h (fstr (GetValue env ''WORKSPACE'') @ ''/Build/**/total-coverage.info'') True w)) @
                  '' --output-file '' @ all_coverage_info (fstr (GetValue env ''WORKSPACE'')) @
                  rc_branch @ lcov_error_settings major) ret)"
  shows "grows P s1 (final (gen_code_coverage_gcc h env s))"
proof (cases "major = 0")
  case True
  then show ?thesis
    using v l by (simp add: gen_code_coverage_gcc_def Let_def final_def grows_logging)
next
  case False
  show ?thesis
    apply (simp only: gen_code_coverage_gcc_def Let_def v sum.case prod.case option.case False if_False)
    apply (rule grows_trans [OF grows_logging])
     apply (rule l)
    apply (rule grows_stage)
      apply (rule f1)
     apply (rule l)
    apply (rule grows_stage)
      apply (rule f2)
     apply (rule l)
    apply (rule grows_stage)
      apply (rule f3)
     apply (rule l)
    apply (rule grows_stage)
      apply (rule c)
     apply (rule l)
    apply (rule grows_stage)
      apply (rule c)
     apply (rule l)
    apply (simp only: glob_glob_def prod.case)
    apply (rule grows_trans [OF grows_emit])
     apply (rule g)
    apply (rule grows_stage)
      apply (rule f4)
     apply (rule l)
    apply (rule gcc_tail_grows)
     apply (rule r)
    apply (rule c)
    done
qed




lemmas gcc_defs = gen_code_coverage_gcc_def get_lcov_version_def stage_def lcov_error_settings_def
  cov_base_info_def coverage_test_info_def total_coverage_info_def compare_xml_def coverage_xml_def
  all_coverage_info_def workspace_coverage_xml_def excludes_def rc_branch_def match_version_at_def
  isdigit_def int_of_digits_def digit_val_def Let_def











subsection \<open>Test discovery on Linux\<close>

text \<open>
  What the discovery loop keeps: the glob entries \<open>a\<close> for which the path
  \<^verbatim>\<open>os.path.join(cp, a)\<close> is a regular file with an execute bit. Rejections are logged at
  debug level and leave the failure count alone.
\<close>

lemma world_logging [simp]: "world (logging lvl msg s) = world s"
  by (simp add: logging_def emit_def)

lemma failure_count_logging [simp]: "failure_count (logging lvl msg s) = failure_count s"
  by (simp add: logging_def emit_def)

lemma for_candidates_spec:
  "for_candidates h cp xs acc s = (acc', s') \<Longrightarrow>
     world s' = world s \<and> failure_count s' = failure_count s \<and>
     mset acc' = mset acc - mset (filter (\<lambda>a. \<not> accepted h cp (world s) a) xs) \<and>
     grows is_diagnostic s s'"
proof (induction xs arbitrary: acc s)
  case Nil
  then show ?case by (simp add: grows_refl)
next
  case (Cons a xs)
  let ?p = "os_path_join h cp a"
  show ?case
  proof (cases "accepted h cp (world s) a")
    case True
    let ?s1 = "logging INFO (''Test file found: '' @ ?p) s"
    have g1: "grows is_diagnostic s ?s1" by (rule grows_logging) simp
    from True Cons.prems have "for_candidates h cp xs acc ?s1 = (acc', s')"
      by (simp add: accepted_def Let_def)
    from Cons.IH [OF this] have
      "world s' = world s" "failure_count s' = failure_count s"
      "mset acc' = mset acc - mset (filter (\<lambda>a. \<not> accepted h cp (world s) a) xs)"
      "grows is_diagnostic ?s1 s'"
      by simp_all
    with True g1 show ?thesis
      by (auto intro: grows_trans)
  next
    case False
    then obtain msg where
      rec: "for_candidates h cp xs (remove1 a acc) (logging DEBUG msg s) = (acc', s')"
      using Cons.prems by (auto simp: accepted_def Let_def split: if_splits)
    have g1: "grows is_diagnostic s (logging DEBUG msg s)" by (rule grows_logging) simp
    from Cons.IH [OF rec] have
      "world s' = world s" "failure_count s' = failure_count s"
      "mset acc' = mset (remove1 a acc) - mset (filter (\<lambda>a. \<not> accepted h cp (world s) a) xs)"
      "grows is_diagnostic (logging DEBUG msg s) s'"
      by simp_all
    with False g1 show ?thesis
      by (auto intro: grows_trans)
  qed
qed


lemma mset_minus_rejected: "mset l - mset (filter (\<lambda>a. \<not> P a) l) = mset (filter P l)"
proof -
  let ?M = "mset l"
  let ?A = "filter_mset P ?M"
  let ?N = "filter_mset (\<lambda>a. \<not> P a) ?M"
  have "?M = ?A + ?N" by (rule multiset_partition)
  then have "?M - ?N = (?A + ?N) - ?N" by (rule arg_cong [where f = "\<lambda>x. x - ?N"])
  also have "\<dots> = ?A" by (simp only: add_diff_cancel_right')
  finally show ?thesis unfolding mset_filter .
qed

lemma linux_discovery_filters:
  assumes linux: "str_upper (GetHostInfo_os h) = ''LINUX''"
  shows "\<exists>testList s'. discover_tests h cp s = Inr (testList, s')
           \<and> set testList =
               {a \<in> set (glob_files h (os_path_join h cp ''*Test*'') False (world s)).
                  accepted h cp (world s) a}
           \<and> failure_count s' = failure_count s
           \<and> list_all is_diagnostic (new_events s s')"
proof -
  let ?l = "glob_files h (os_path_join h cp ''*Test*'') False (world s)"
  let ?s1 = "emit (Glob (os_path_join h cp ''*Test*'')) s"
  obtain testList s' where fc: "for_candidates h cp ?l ?l ?s1 = (testList, s')"
    by (cases "for_candidates h cp ?l ?l ?s1") auto
  have d: "discover_tests h cp s = Inr (testList, s')"
    using linux fc by (simp add: discover_tests_def glob_glob_def)
  have w: "world ?s1 = world s" "failure_count ?s1 = failure_count s"
    by (simp_all add: emit_def)
  have g1: "grows is_diagnostic s ?s1" by (rule grows_emit) simp
  from for_candidates_spec [OF fc] w have
    m: "mset testList = mset ?l - mset (filter (\<lambda>a. \<not> accepted h cp (world s) a) ?l)" and
    f: "failure_count s' = failure_count s" and
    g2: "grows is_diagnostic ?s1 s'"
    by simp_all
  from m have "mset testList = mset (filter (accepted h cp (world s)) ?l)"
    by (simp only: mset_minus_rejected)
  then have "set testList = set (filter (accepted h cp (world s)) ?l)"
    by (rule mset_eq_setD)
  then have "set testList = {a \<in> set ?l. accepted h cp (world s) a}"
    by auto
  moreover have "list_all is_diagnostic (new_events s s')"
    by (rule grows_new_events [OF grows_trans [OF g1 g2]])
  ultimately show ?thesis using d f by blast
qed

lemma posixpath_join_absolute: "prefix ''/'' a \<Longrightarrow> posixpath_join cp a = a"
  by (simp add: posixpath_join_def)

lemma linux_discovery_absolute:
  assumes linux: "str_upper (GetHostInfo_os h) = ''LINUX''"
      and posix: "os_path_join h = posixpath_join"
      and absolute: "\<forall>a \<in> set (glob_files h (os_path_join h cp ''*Test*'') False (world s)). prefix ''/'' a"
      and found: "discover_tests h cp s = Inr (testList, s')"
  shows "\<forall>a \<in> set testList.
           os_path_isfile h a (world s) \<and>
           os_stat_st_mode h a (world s) AND (S_IEXEC OR S_IXGRP OR S_IXOTH) \<noteq> 0"
proof
  fix a assume a: "a \<in> set testList"
  from linux_discovery_filters [OF linux, of cp s] found have
    "set testList = {a \<in> set (glob_files h (os_path_join h cp ''*Test*'') False (world s)).
                       accepted h cp (world s) a}"
    by auto
  with a have g: "a \<in> set (glob_files h (os_path_join h cp ''*Test*'') False (world s))"
    and acc: "accepted h cp (world s) a"
    by auto
  from g absolute have "prefix ''/'' a" by blast
  then have "os_path_join h cp a = a"
    by (simp only: posix posixpath_join_absolute)
  with acc show "os_path_isfile h a (world s) \<and>
           os_stat_st_mode h a (world s) AND (S_IEXEC OR S_IXGRP OR S_IXOTH) \<noteq> 0"
    by (simp add: accepted_def)
qed

lemmas driver_defs = do_post_build_def discover_tests_def run_test_def code_coverage_def
  parse_result_file_def str_split_def isspace_def str_upper_def ascii_upper_def
  S_IEXEC_def S_IXGRP_def S_IXOTH_def Let_def

text \<open>
  Claim C7 says that on Linux every candidate that discovery returns is a regular file with
  an execute bit, named with \<^verbatim>\<open>Test\<close>. The loop tests \<^verbatim>\<open>os.path.join(cp, a)\<close>, where
  \<open>a\<close> already is the joined path the glob returned: for an absolute build directory the
  two paths are the same (\<open>linux_discovery_absolute\<close>), for a relative one they differ. The
  code on \<open>relative_host\<close>: the glob finds the directory \<^verbatim>\<open>out/X64/MyTest\<close>, the loop
  tests the file \<^verbatim>\<open>out/X64/out/X64/MyTest\<close>, and discovery returns the directory.
\<close>

theorem relative_path_keeps_directory:
  "discover_tests relative_host (os_path_join relative_host ''out'' ''X64'') start =
     Inr ([''out/X64/MyTest''],
          start\<lparr>events := [Glob ''out/X64/*Test*'',
                            Log INFO ''Test file found: out/X64/out/X64/MyTest'']\<rparr>)
   \<and> \<not> os_path_isfile relative_host ''out/X64/MyTest'' (world start)"
  by (simp add: driver_defs relative_host_def host_defs prim_defs)

subsection \<open>An architecture without tests\<close>

text \<open>
  When discovery finds nothing for an architecture, the driver logs the warning and
  returns 0 from \<^verbatim>\<open>do_post_build\<close> at once: no test runs and no coverage for that
  architecture, but also nothing of the count so far and no later architecture.
\<close>

lemma empty_test_list_returns_0:
  assumes "glob_glob h (os_path_join h (os_path_join h path arch) ''*.result.xml'') False
             (logging SUBSECTION (''Testing for architecture: '' @ arch) s) = (old_results, s2)"
      and "for_old_results h old_results s2 = Inr ((), s3)"
      and "discover_tests h (os_path_join h path arch) s3 = Inr ([], s4)"
  shows "for_archs h env (Some path) (arch # rest) s = Inr (0, logging WARNING no_tests_message s4)"
  using assms by (simp add: Let_def)

text \<open>
  Claim C1 says that an architecture with an empty test list is skipped with zero failures
  and without coverage, and that the total returned by \<^verbatim>\<open>do_post_build\<close> still includes the
  failures of the architectures before it. The code on \<open>two_arch_host\<close>: for
  \<^verbatim>\<open>TARGET_ARCH = "IA32"\<close> it returns 1 (the test of IA32 exits with 2); for
  \<^verbatim>\<open>TARGET_ARCH = "IA32 X64"\<close>, where X64 has no test, it returns 0 although
  \<^verbatim>\<open>failure_count\<close> is 1.
\<close>

theorem empty_test_list_drops_failures:
  "do_post_build two_arch_host (arch_env ''IA32'') start =
     Inr (1, start\<lparr>events :=
       [Log SECTION ''Run Host based Unit Tests'',
        SetShellVar ''GTEST_CATCH_EXCEPTIONS'' ''0'',
        SetShellVar ''ASAN_OPTIONS'' ''detect_leaks=0'',
        SetShellVar ''CMOCKA_MESSAGE_OUTPUT'' ''xml'',
        Log SUBSECTION ''Testing for architecture: IA32'',
        Glob ''/b/IA32/*.result.xml'',
        Glob ''/b/IA32/*Test*'',
        Log INFO ''Test file found: /b/IA32/BarTest'',
        SetShellVar ''CMOCKA_XML_FILE'' ''/b/IA32/BarTest.CMOCKA.%g.IA32.result.xml'',
        SetShellVar ''GTEST_OUTPUT'' ''xml:/b/IA32/BarTest.GTEST.IA32.result.xml'',
        Run (quoted ''/b/IA32/BarTest'') [] 2,
        Log ERROR ''UnitTest Execution Error: BarTest''],
       failure_count := 1\<rparr>)
   \<and> do_post_build two_arch_host (arch_env ''IA32 X64'') start =
     Inr (0, start\<lparr>events :=
       [Log SECTION ''Run Host based Unit Tests'',
        SetShellVar ''GTEST_CATCH_EXCEPTIONS'' ''0'',
        SetShellVar ''ASAN_OPTIONS'' ''detect_leaks=0'',
        SetShellVar ''CMOCKA_MESSAGE_OUTPUT'' ''xml'',
        Log SUBSECTION ''Testing for architecture: IA32'',
        Glob ''/b/IA32/*.result.xml'',
        Glob ''/b/IA32/*Test*'',
        Log INFO ''Test file found: /b/IA32/BarTest'',
        SetShellVar ''CMOCKA_XML_FILE'' ''/b/IA32/BarTest.CMOCKA.%g.IA32.result.xml'',
        SetShellVar ''GTEST_OUTPUT'' ''xml:/b/IA32/BarTest.GTEST.IA32.result.xml'',
        Run (quoted ''/b/IA32/BarTest'') [] 2,
        Log ERROR ''UnitTest Execution Error: BarTest'',
        Log SUBSECTION ''Testing for architecture: X64'',
        Glob ''/b/X64/*.result.xml'',
        Glob ''/b/X64/*Test*'',
        Log WARNING no_tests_message],
       failure_count := 1\<rparr>)"
  by (simp add: driver_defs two_arch_host_def arch_env_def host_defs prim_defs)

subsection \<open>The last stage of the lcov pipeline\<close>

text \<open>
  Claim C2 says that in both coverage pipelines a stage whose command exits with a
  non-zero code ends the pipeline with a non-zero result, which the driver counts as one
  failure. The code on \<open>last_stage_fails_host\<close>: the last command of the lcov pipeline
  (line 222) exits with 1, its exit code is assigned and never read, the function returns
  0 and the driver counts nothing. Everywhere else the claim holds: see
  \<open>gen_code_coverage_gcc_stops\<close> and \<open>gen_code_coverage_msvc_stops\<close> at the end.
\<close>

theorem last_stage_exit_code_ignored:
  "map_sum fst fst (gen_code_coverage_gcc last_stage_fails_host gcc_env start) = Inr 0
   \<and> last (events (final (gen_code_coverage_gcc last_stage_fails_host gcc_env start))) =
       Run ''lcov_cobertura''
         (all_coverage_info ''/w'' @ '' --excludes '' @ excludes @ '' -o '' @ workspace_coverage_xml ''/w'') 1
   \<and> failure_count (final (code_coverage last_stage_fails_host gcc_env start)) = 0"
  by (simp add: gcc_defs last_stage_fails_host_def gcc_env_def host_defs prim_defs str_nat.simps
      code_coverage_def)

section \<open>Exceptions are not caught\<close>

lemma grows_mono: "(\<And>e. P e \<Longrightarrow> Q e) \<Longrightarrow> grows P s s' \<Longrightarrow> grows Q s s'"
  by (auto simp: grows_def list_all_iff)

lemma is_io_sound: "is_io e \<Longrightarrow> sound e"
  by (cases e) (simp_all add: sound_def)

lemma is_diagnostic_io: "is_diagnostic e \<Longrightarrow> is_io e"
  by (cases e) simp_all

lemma is_log_io: "is_log e \<Longrightarrow> is_io e"
  by (cases e) simp_all

lemma uncaught_Inr: "uncaught s (Inr (x, s')) \<longleftrightarrow> grows sound s s'"
  by (simp add: uncaught_def)

lemma uncaught_InlI: "grows sound s s' \<Longrightarrow> uncaught s (Inl (e, s'))"
  by (simp add: uncaught_def)

lemma uncaught_Inl_cong:
  "uncaught s (Inl es :: ('w, 'a) result) \<Longrightarrow> uncaught s (Inl es :: ('w, 'b) result)"
  by (simp add: uncaught_def)

lemma uncaught_prefix:
  assumes g: "grows sound s s1" and u: "uncaught s1 r"
  shows "uncaught s r"
proof (cases r)
  case (Inr xs)
  obtain x s' where "xs = (x, s')" by (cases xs)
  with Inr u g show ?thesis by (auto simp: uncaught_def intro: grows_trans)
next
  case (Inl es)
  obtain e s' where es: "es = (e, s')" by (cases es)
  from u Inl es consider
      (a) "grows sound s1 s'"
    | (b) s2 f where "grows sound s1 s2" "s' = emit (ParseXml f None) s2" "e = ParseError f"
    | (c) s2 f root where "grows sound s1 s2" "\<not> list_all has_name (case_failures root)"
          "grows is_log (emit (ParseXml f (Some root)) s2) s'" "e = KeyError ''name''"
    unfolding uncaught_def by auto
  then show ?thesis
  proof cases
    case a
    with g have "grows sound s s'" by (rule grows_trans)
    then show ?thesis unfolding Inl es by (rule uncaught_InlI)
  next
    case b
    from g b(1) have "grows sound s s2" by (rule grows_trans)
    with b(2,3) show ?thesis unfolding Inl es uncaught_def by auto
  next
    case c
    from g c(1) have "grows sound s s2" by (rule grows_trans)
    with c(2,3,4) show ?thesis unfolding Inl es uncaught_def by auto
  qed
qed

lemma uncaught_bind:
  assumes "uncaught s m"
      and "\<And>x s1. m = Inr (x, s1) \<Longrightarrow> uncaught s1 (k x s1)"
  shows "uncaught s (case m of Inl e \<Rightarrow> Inl e | Inr (x, s1) \<Rightarrow> k x s1)"
proof (cases m)
  case (Inl es)
  with assms(1) show ?thesis by (simp add: uncaught_def)
next
  case (Inr xs)
  obtain x s1 where xs: "xs = (x, s1)" by (cases xs)
  from assms(1) Inr xs have "grows sound s s1" by (simp add: uncaught_def)
  moreover from assms(2) Inr xs have "uncaught s1 (k x s1)" by simp
  ultimately have "uncaught s (k x s1)" by (rule uncaught_prefix)
  with Inr xs show ?thesis by simp
qed


lemma grows_set_shell_var: "P (SetShellVar k v) \<Longrightarrow> grows P s (set_shell_var h k v s)"
  by (simp add: set_shell_var_def grows_def emit_def)

lemma grows_add_failures: "grows is_log s (add_failures h test crs s)"
  by (simp add: grows_def add_failures_def failure_log_def list_all_iff)

lemma uncaught_tally:
  "uncaught s (tally_outcome h test (case_failures root) (emit (ParseXml f (Some root)) s))"
proof (cases "list_all has_name (case_failures root)")
  case True
  let ?s1 = "emit (ParseXml f (Some root)) s"
  have "grows sound s ?s1"
    using True by (intro grows_emit) (simp add: sound_def)
  moreover have "grows sound ?s1 (add_failures h test (case_failures root) ?s1)"
    by (rule grows_mono [OF _ grows_add_failures]) (simp add: is_io_sound is_log_io)
  ultimately have "grows sound s (add_failures h test (case_failures root) ?s1)"
    by (rule grows_trans)
  with True show ?thesis by (simp add: tally_outcome_def uncaught_def)
next
  case False
  let ?s1 = "emit (ParseXml f (Some root)) s"
  let ?s2 = "add_failures h test (takeWhile has_name (case_failures root)) ?s1"
  let ?s3 = "logging WARNING (os_path_basename h test @ '' Test Failed'') ?s2"
  have "grows is_log ?s1 ?s2" by (rule grows_add_failures)
  moreover have "grows is_log ?s2 ?s3" by (rule grows_logging) simp
  ultimately have "grows is_log ?s1 ?s3" by (rule grows_trans)
  moreover have "grows sound s s" by (rule grows_refl)
  ultimately show ?thesis
    using False unfolding tally_outcome_def uncaught_def by auto
qed

lemma uncaught_parse_result_file: "uncaught s (parse_result_file h test f s)"
proof (cases "xml_parse h f (world s)")
  case None
  have "grows sound s s" by (rule grows_refl)
  then show ?thesis
    using None unfolding parse_result_file_outcome uncaught_def by auto
next
  case (Some root)
  then show ?thesis
    by (simp add: parse_result_file_outcome uncaught_tally)
qed

lemma uncaught_for_xml_results: "uncaught s (for_xml_results h test fs s)"
proof (induction fs arbitrary: s)
  case Nil
  show ?case by (simp add: uncaught_def grows_refl)
next
  case (Cons f fs)
  have "uncaught s (case parse_result_file h test f s of
                      Inl e \<Rightarrow> Inl e
                    | Inr (x, s') \<Rightarrow> for_xml_results h test fs s')"
    by (rule uncaught_bind [OF uncaught_parse_result_file]) (rule Cons.IH)
  then show ?case by simp
qed

lemma uncaught_run_test: "uncaught s (run_test h arch cp test s)"
proof -
  let ?s1 = "set_shell_var h ''CMOCKA_XML_FILE'' (cmocka_xml_file test arch) s"
  let ?s2 = "set_shell_var h ''GTEST_OUTPUT'' (''xml:'' @ gtest_xml_file test arch) ?s1"
  obtain ret out s3 where r: "RunCmd h (quoted test) [] (Some cp) ?s2 = (ret, out, s3)"
    by (cases "RunCmd h (quoted test) [] (Some cp) ?s2") auto
  have "grows sound s ?s1" by (rule grows_set_shell_var) (simp add: sound_def)
  moreover have "grows sound ?s1 ?s2" by (rule grows_set_shell_var) (simp add: sound_def)
  moreover have "grows sound ?s2 s3" by (rule grows_RunCmd [OF r]) (simp add: sound_def)
  ultimately have g3: "grows sound s s3" by (blast intro: grows_trans)
  show ?thesis
  proof (cases "ret = 0")
    case False
    let ?s4 = "logging ERROR (''UnitTest Execution Error: '' @ os_path_basename h test) s3"
    have "grows sound s3 ?s4" by (rule grows_logging) (simp add: sound_def)
    with g3 have "grows sound s ?s4" by (rule grows_trans)
    then have "grows sound s (?s4\<lparr>failure_count := failure_count ?s4 + 1\<rparr>)"
      by (simp add: grows_def)
    with False r show ?thesis
      by (simp add: run_test_def Let_def uncaught_def)
  next
    case True
    let ?s4 = "logging INFO (''UnitTest Completed: '' @ os_path_basename h test) s3"
    let ?s5 = "emit (Glob (file_match_pattern test arch)) ?s4"
    have "grows sound s3 ?s4" by (rule grows_logging) (simp add: sound_def)
    moreover have "grows sound ?s4 ?s5" by (rule grows_emit) (simp add: sound_def)
    ultimately have "grows sound s ?s5" using g3 by (blast intro: grows_trans)
    then have "uncaught s (for_xml_results h test
                 (glob_files h (file_match_pattern test arch) False (world ?s4)) ?s5)"
      by (rule uncaught_prefix) (rule uncaught_for_xml_results)
    with True r show ?thesis
      by (simp add: run_test_def Let_def glob_glob_def)
  qed
qed

lemma uncaught_for_tests: "uncaught s (for_tests h arch cp tests s)"
proof (induction tests arbitrary: s)
  case Nil
  show ?case by (simp add: uncaught_def grows_refl)
next
  case (Cons t ts)
  have "uncaught s (case run_test h arch cp t s of
                      Inl e \<Rightarrow> Inl e
                    | Inr (x, s') \<Rightarrow> for_tests h arch cp ts s')"
    by (rule uncaught_bind [OF uncaught_run_test]) (rule Cons.IH)
  then show ?case by simp
qed


lemma grows_get_lcov_version: "grows is_io s (final (get_lcov_version h s))"
proof -
  obtain ret out s1 where r: "RunCmd h ''lcov'' ''--version'' None s = (ret, out, s1)"
    by (cases "RunCmd h ''lcov'' ''--version'' None s") auto
  have "grows is_io s s1" by (rule grows_RunCmd [OF r]) simp
  moreover have "final (get_lcov_version h s) = s1"
    using r by (simp add: get_lcov_version_def final_def split: option.splits)
  ultimately show ?thesis by simp
qed

lemma grows_gen_code_coverage_gcc: "grows is_io s (final (gen_code_coverage_gcc h env s))"
proof -
  let ?s0 = "logging INFO ''Generating UnitTest code coverage'' s"
  have g0: "grows is_io s ?s0" by (rule grows_logging) simp
  have gv: "grows is_io ?s0 (final (get_lcov_version h ?s0))" by (rule grows_get_lcov_version)
  show ?thesis
  proof (cases "get_lcov_version h ?s0")
    case (Inl es)
    obtain e s1 where es: "es = (e, s1)" by (cases es)
    from gv Inl es have "grows is_io ?s0 s1" by (simp add: final_def)
    with g0 have "grows is_io s s1" by (rule grows_trans)
    with Inl es show ?thesis by (simp add: gen_code_coverage_gcc_def Let_def final_def)
  next
    case (Inr vs)
    obtain v s1 where vs: "vs = (v, s1)" by (cases vs)
    from gv Inr vs have "grows is_io ?s0 s1" by (simp add: final_def)
    with g0 have g1: "grows is_io s s1" by (rule grows_trans)
    show ?thesis
    proof (cases v)
      case None
      have "grows is_io s1 (logging ERROR ''UnitTest Coverage: Failed to determine lcov version'' s1)"
        by (rule grows_logging) simp
      with g1 have "grows is_io s (logging ERROR ''UnitTest Coverage: Failed to determine lcov version'' s1)"
        by (rule grows_trans)
      with Inr vs None show ?thesis by (simp add: gen_code_coverage_gcc_def Let_def final_def)
    next
      case (Some major)
      have "grows is_io s1 (final (gen_code_coverage_gcc h env s))"
        by (rule gen_code_coverage_gcc_grows [OF Inr [unfolded vs Some]]) simp_all
      with g1 show ?thesis by (rule grows_trans)
    qed
  qed
qed

lemma grows_for_testFiles:
  "grows is_io s (snd (for_testFiles h workspace workspaceBuild buildOutputBase testList s))"
proof (induction testList arbitrary: s)
  case Nil
  show ?case by (simp add: grows_refl)
next
  case (Cons t ts)
  let ?p1 = "''--source '' @ workspace @ '' --export_type binary:'' @ t @ ''.cov -- '' @ t"
  obtain ret out s1 where r1: "RunCmd h ''OpenCppCoverage'' ?p1 None s = (ret, out, s1)"
    by (cases "RunCmd h ''OpenCppCoverage'' ?p1 None s") auto
  have g1: "grows is_io s s1" by (rule grows_RunCmd [OF r1]) simp
  show ?case
  proof (cases "ret = 0")
    case False
    have "grows is_io s1 (logging ERROR ''UnitTest Coverage: Failed to collect coverage data.'' s1)"
      by (rule grows_logging) simp
    with g1 have "grows is_io s (logging ERROR ''UnitTest Coverage: Failed to collect coverage data.'' s1)"
      by (rule grows_trans)
    with False r1 show ?thesis by simp
  next
    case True
    let ?total = "os_path_join h buildOutputBase ''coverage.cov''"
    let ?p2 = "''--export_type binary:'' @ ?total @ '' '' @ ''--working_dir='' @ workspaceBuild @ '' '' @
               ('' --input_coverage='' @ t @ ''.cov'' @
                 (if os_path_isfile h ?total (world s1) then '' --input_coverage='' @ ?total else []))"
    obtain ret2 out2 s2 where r2: "RunCmd h ''OpenCppCoverage'' ?p2 None s1 = (ret2, out2, s2)"
      by (cases "RunCmd h ''OpenCppCoverage'' ?p2 None s1") auto
    have "grows is_io s1 s2" by (rule grows_RunCmd [OF r2]) simp
    with g1 have g2: "grows is_io s s2" by (rule grows_trans)
    show ?thesis
    proof (cases "ret2 = 0")
      case False
      have "grows is_io s2 (logging ERROR ''UnitTest Coverage: Failed to collect coverage data.'' s2)"
        by (rule grows_logging) simp
      with g2 have "grows is_io s (logging ERROR ''UnitTest Coverage: Failed to collect coverage data.'' s2)"
        by (rule grows_trans)
      with False True r1 r2 show ?thesis by (simp add: Let_def)
    next
      case ok: True
      from g2 Cons.IH [of s2]
      have "grows is_io s (snd (for_testFiles h workspace workspaceBuild buildOutputBase ts s2))"
        by (rule grows_trans)
      with ok True r1 r2 show ?thesis by (simp add: Let_def)
    qed
  qed
qed

lemma grows_for_testCoverages:
  "grows is_io s (snd (for_testCoverages h workspaceBuild testCoverageList s))"
proof (induction testCoverageList arbitrary: s)
  case Nil
  show ?case by (simp add: grows_refl)
next
  case (Cons t ts)
  let ?total = "os_path_join h workspaceBuild ''coverage.cov''"
  let ?p = "''--export_type binary:'' @ ?total @ '' '' @ ''--working_dir='' @ workspaceBuild @ '' '' @
             ('' --input_coverage='' @ t @
               (if os_path_isfile h ?total (world s) then '' --input_coverage='' @ ?total else []))"
  obtain ret out s1 where r1: "RunCmd h ''OpenCppCoverage'' ?p None s = (ret, out, s1)"
    by (cases "RunCmd h ''OpenCppCoverage'' ?p None s") auto
  have g1: "grows is_io s s1" by (rule grows_RunCmd [OF r1]) simp
  show ?case
  proof (cases "ret = 0")
    case False
    have "grows is_io s1 (logging ERROR ''UnitTest Coverage: Failed to collect coverage data.'' s1)"
      by (rule grows_logging) simp
    with g1 have "grows is_io s (logging ERROR ''UnitTest Coverage: Failed to collect coverage data.'' s1)"
      by (rule grows_trans)
    with False r1 show ?thesis by (simp add: Let_def)
  next
    case True
    from g1 Cons.IH [of s1]
    have "grows is_io s (snd (for_testCoverages h workspaceBuild ts s1))"
      by (rule grows_trans)
    with True r1 show ?thesis by (simp add: Let_def)
  qed
qed


lemma grows_msvc_workspace:
  "grows is_io s3
     (final (case glob_glob h pat True s3 of
               (testCoverageList, s4) \<Rightarrow>
                 (case for_testCoverages h workspaceBuild testCoverageList s4 of
                    (Some r, s5) \<Rightarrow> Inr (r, s5)
                  | (None, s5) \<Rightarrow> stage h cmd params msg (\<lambda>s6. Inr (0, s6)) s5)))"
proof -
  let ?s4 = "emit (Glob pat) s3"
  let ?l = "glob_files h pat True (world s3)"
  obtain r s5 where f: "for_testCoverages h workspaceBuild ?l ?s4 = (r, s5)"
    by (cases "for_testCoverages h workspaceBuild ?l ?s4") auto
  have "grows is_io s3 ?s4" by (rule grows_emit) simp
  moreover have "grows is_io ?s4 s5"
    using grows_for_testCoverages [of ?s4 h workspaceBuild ?l] f by simp
  ultimately have g5: "grows is_io s3 s5" by (rule grows_trans)
  show ?thesis
  proof (cases r)
    case (Some x)
    with f g5 show ?thesis by (simp add: glob_glob_def final_def)
  next
    case None
    have "grows is_io s5 (final (stage h cmd params msg (\<lambda>s6. Inr (0::int, s6)) s5))"
      by (rule grows_stage) (simp_all add: final_def grows_refl)
    with g5 have "grows is_io s3 (final (stage h cmd params msg (\<lambda>s6. Inr (0::int, s6)) s5))"
      by (rule grows_trans)
    with None f show ?thesis by (simp add: glob_glob_def)
  qed
qed

lemma grows_gen_code_coverage_msvc: "grows is_io s (final (gen_code_coverage_msvc h env s))"
proof -
  let ?s0 = "logging INFO ''Generating UnitTest code coverage'' s"
  have g0: "grows is_io s ?s0" by (rule grows_logging) simp
  show ?thesis
  proof (cases "GetValue env ''BUILD_OUTPUT_BASE''")
    case None
    with g0 show ?thesis by (simp add: gen_code_coverage_msvc_def final_def)
  next
    case (Some bob)
    let ?pat = "os_path_join h (os_path_join h bob ''**'') ''*Test*.exe''"
    let ?s1 = "emit (Glob ?pat) ?s0"
    let ?testList = "glob_files h ?pat True (world ?s0)"
    have "grows is_io ?s0 ?s1" by (rule grows_emit) simp
    with g0 have g1: "grows is_io s ?s1" by (rule grows_trans)
    show ?thesis
    proof (cases "GetValue env ''WORKSPACE''")
      case None
      with Some g1 show ?thesis
        by (simp add: gen_code_coverage_msvc_def final_def glob_glob_def)
    next
      case ws: (Some ws)
      show ?thesis
      proof (cases "ws = []")
        case True
        with Some ws g1 show ?thesis
          by (simp add: gen_code_coverage_msvc_def final_def glob_glob_def)
      next
        case False
        let ?workspace = "if last ws \<noteq> os_sep h then ws @ [os_sep h] else ws"
        let ?wsb = "os_path_join h ?workspace ''Build''"
        obtain r s2 where f: "for_testFiles h ?workspace ?wsb bob ?testList ?s1 = (r, s2)"
          by (cases "for_testFiles h ?workspace ?wsb bob ?testList ?s1") auto
        have "grows is_io ?s1 s2"
          using grows_for_testFiles [of ?s1 h ?workspace ?wsb bob ?testList] f by simp
        with g1 have g2: "grows is_io s s2" by (rule grows_trans)
        show ?thesis
        proof (cases r)
          case (Some x)
          with \<open>GetValue env ''BUILD_OUTPUT_BASE'' = Some bob\<close> ws False f g2 show ?thesis
            by (simp add: gen_code_coverage_msvc_def final_def glob_glob_def Let_def)
        next
          case None
          show ?thesis
          proof (cases "?testList = []")
            case True
            with None \<open>GetValue env ''BUILD_OUTPUT_BASE'' = Some bob\<close> ws False f g2 show ?thesis
              by (simp add: gen_code_coverage_msvc_def final_def glob_glob_def Let_def)
          next
            case nonempty: False
            have "grows is_io s2 (final (stage h cmd params msg
                    (\<lambda>s3. case glob_glob h pat True s3 of
                       (testCoverageList, s4) \<Rightarrow>
                         (case for_testCoverages h ?wsb testCoverageList s4 of
                            (Some r, s5) \<Rightarrow> Inr (r, s5)
                          | (None, s5) \<Rightarrow> stage h cmd2 params2 msg2 (\<lambda>s6. Inr (0, s6)) s5)) s2))"
              for cmd params msg pat cmd2 params2 msg2
              by (rule grows_stage) (simp_all add: grows_msvc_workspace)
            from grows_trans [OF g2 this]
            show ?thesis
              using None nonempty \<open>GetValue env ''BUILD_OUTPUT_BASE'' = Some bob\<close> ws False f
              by (simp add: gen_code_coverage_msvc_def glob_glob_def Let_def)
          qed
        qed
      qed
    qed
  qed
qed


lemma grows_count: "grows P s s' \<Longrightarrow> grows P s (s'\<lparr>failure_count := n\<rparr>)"
  by (simp add: grows_def)

lemma grows_code_coverage: "grows is_io (s :: 'w state) (final (code_coverage h env s))"
proof -
  have c: "grows is_io s (final (case r of
              Inl e \<Rightarrow> Inl e
            | Inr (ret, s') \<Rightarrow>
                Inr ((), if ret \<noteq> 0 then s'\<lparr>failure_count := failure_count s' + 1\<rparr> else s')))"
    if "grows is_io s (final r)" for r :: "('w, int) result"
    using that by (auto simp: final_def grows_count split: sum.splits)
  have skip: "grows is_io s (logging INFO msg s)" for msg
    by (rule grows_logging) simp
  show ?thesis
    unfolding code_coverage_def
    by (auto simp: grows_refl final_def skip split: option.splits
        intro!: c [unfolded final_def] grows_gen_code_coverage_gcc [unfolded final_def]
                grows_gen_code_coverage_msvc [unfolded final_def])
qed

lemma grows_for_old_results: "grows is_io s (final (for_old_results h old_results s))"
proof (induction old_results arbitrary: s)
  case Nil
  show ?case by (simp add: final_def grows_refl)
next
  case (Cons p ps)
  show ?case
  proof (cases "os_remove h p (world s)")
    case None
    then show ?thesis by (simp add: remove_file_def final_def grows_refl)
  next
    case (Some w')
    let ?s1 = "emit (Remove p) (s\<lparr>world := w'\<rparr>)"
    have "grows is_io s ?s1" by (simp add: grows_def emit_def)
    from grows_trans [OF this Cons.IH [of ?s1]] Some show ?thesis
      by (simp add: remove_file_def)
  qed
qed

lemma grows_discover_tests: "grows is_io s (final (discover_tests h cp s))"
proof -
  have g: "grows is_io s (emit (Glob pat) s)" for pat
    by (rule grows_emit) simp
  show ?thesis
  proof (cases "str_upper (GetHostInfo_os h) = ''LINUX''")
    case True
    let ?l = "glob_files h (os_path_join h cp ''*Test*'') False (world s)"
    let ?s1 = "emit (Glob (os_path_join h cp ''*Test*'')) s"
    obtain testList s' where fc: "for_candidates h cp ?l ?l ?s1 = (testList, s')"
      by (cases "for_candidates h cp ?l ?l ?s1") auto
    from for_candidates_spec [OF fc] have "grows is_diagnostic ?s1 s'" by simp
    then have "grows is_io ?s1 s'" by (rule grows_mono [rotated]) (rule is_diagnostic_io)
    with g have "grows is_io s s'" by (rule grows_trans)
    with True fc show ?thesis
      by (simp add: discover_tests_def glob_glob_def final_def)
  next
    case False
    with g show ?thesis
      by (simp add: discover_tests_def glob_glob_def final_def grows_refl)
  qed
qed

lemma grows_uncaught: "grows is_io s (final r) \<Longrightarrow> uncaught s r"
proof -
  assume "grows is_io s (final r)"
  then have "grows sound s (final r)" by (rule grows_mono [rotated]) (rule is_io_sound)
  then show ?thesis
    by (auto simp: uncaught_def final_def split: sum.splits)
qed

lemma uncaught_for_archs: "uncaught s (for_archs h env path archs s)"
proof (induction archs arbitrary: s)
  case Nil
  show ?case by (simp add: uncaught_def grows_refl)
next
  case (Cons arch rest)
  let ?s1 = "logging SUBSECTION (''Testing for architecture: '' @ arch) s"
  have g1: "grows sound s ?s1" by (rule grows_logging) (simp add: sound_def)
  show ?case
  proof (cases path)
    case None
    with g1 show ?thesis by (simp add: uncaught_def Let_def)
  next
    case (Some path')
    let ?cp = "os_path_join h path' arch"
    let ?s2 = "emit (Glob (os_path_join h ?cp ''*.result.xml'')) ?s1"
    let ?olds = "glob_files h (os_path_join h ?cp ''*.result.xml'') False (world ?s1)"
    have "grows sound ?s1 ?s2" by (rule grows_emit) (simp add: sound_def)
    with g1 have g2: "grows sound s ?s2" by (rule grows_trans)
    have tail: "uncaught s4
        (if testList = [] then Inr (0, logging WARNING no_tests_message s4)
         else (case for_tests h arch ?cp testList s4 of
                 Inl e \<Rightarrow> Inl e
               | Inr (x, s5) \<Rightarrow>
                   (case code_coverage h env s5 of
                      Inl e \<Rightarrow> Inl e
                    | Inr (y, s6) \<Rightarrow> for_archs h env (Some path') rest s6)))" for testList s4
    proof (cases "testList = []")
      case True
      have "grows sound s4 (logging WARNING no_tests_message s4)"
        by (rule grows_logging) (simp add: sound_def)
      with True show ?thesis by (simp add: uncaught_def)
    next
      case False
      have "uncaught s4 (case for_tests h arch ?cp testList s4 of
                 Inl e \<Rightarrow> Inl e
               | Inr (x, s5) \<Rightarrow>
                   (case code_coverage h env s5 of
                      Inl e \<Rightarrow> Inl e
                    | Inr (y, s6) \<Rightarrow> for_archs h env (Some path') rest s6))"
        by (intro uncaught_bind uncaught_for_tests grows_uncaught grows_code_coverage Cons.IH [unfolded Some])
      with False show ?thesis by simp
    qed
    have "uncaught ?s2
       (case for_old_results h ?olds ?s2 of
          Inl e \<Rightarrow> Inl e
        | Inr (x, s3) \<Rightarrow>
            (case discover_tests h ?cp s3 of
               Inl e \<Rightarrow> Inl e
             | Inr (testList, s4) \<Rightarrow>
                 if testList = [] then Inr (0, logging WARNING no_tests_message s4)
                 else (case for_tests h arch ?cp testList s4 of
                         Inl e \<Rightarrow> Inl e
                       | Inr (x, s5) \<Rightarrow>
                           (case code_coverage h env s5 of
                              Inl e \<Rightarrow> Inl e
                            | Inr (y, s6) \<Rightarrow> for_archs h env (Some path') rest s6))))"
      by (intro uncaught_bind grows_uncaught grows_for_old_results grows_discover_tests tail)
    with g2 have "uncaught s
       (case for_old_results h ?olds ?s2 of
          Inl e \<Rightarrow> Inl e
        | Inr (x, s3) \<Rightarrow>
            (case discover_tests h ?cp s3 of
               Inl e \<Rightarrow> Inl e
             | Inr (testList, s4) \<Rightarrow>
                 if testList = [] then Inr (0, logging WARNING no_tests_message s4)
                 else (case for_tests h arch ?cp testList s4 of
                         Inl e \<Rightarrow> Inl e
                       | Inr (x, s5) \<Rightarrow>
                           (case code_coverage h env s5 of
                              Inl e \<Rightarrow> Inl e
                            | Inr (y, s6) \<Rightarrow> for_archs h env (Some path') rest s6))))"
      by (rule uncaught_prefix)
    with Some show ?thesis
      by (simp add: Let_def glob_glob_def)
  qed
qed

lemma uncaught_do_post_build: "uncaught s (do_post_build h env s)"
proof (cases "GetValue env ''CI_BUILD_TYPE'' \<noteq> Some ''host_unit_test''")
  case True
  then show ?thesis by (simp add: do_post_build_def uncaught_def grows_refl)
next
  case False
  let ?s1 = "logging SECTION ''Run Host based Unit Tests'' s"
  let ?s2 = "?s1\<lparr>failure_count := 0\<rparr>"
  let ?s3 = "set_shell_var h ''GTEST_CATCH_EXCEPTIONS'' ''0'' ?s2"
  let ?s4 = "set_shell_var h ''ASAN_OPTIONS'' ''detect_leaks=0'' ?s3"
  let ?s5 = "set_shell_var h ''CMOCKA_MESSAGE_OUTPUT'' ''xml'' ?s4"
  have "grows sound s ?s1" by (rule grows_logging) (simp add: sound_def)
  then have "grows sound s ?s2" by (rule grows_count)
  moreover have "grows sound ?s2 ?s3" by (rule grows_set_shell_var) (simp add: sound_def)
  moreover have "grows sound ?s3 ?s4" by (rule grows_set_shell_var) (simp add: sound_def)
  moreover have "grows sound ?s4 ?s5" by (rule grows_set_shell_var) (simp add: sound_def)
  ultimately have g5: "grows sound s ?s5" by (blast intro: grows_trans)
  show ?thesis
  proof (cases "GetValue env ''TARGET_ARCH''")
    case None
    with False g5 show ?thesis by (simp add: do_post_build_def Let_def uncaught_def)
  next
    case (Some target_arch)
    have "uncaught s (for_archs h env (GetValue env ''BUILD_OUTPUT_BASE'') (str_split target_arch) ?s5)"
      using g5 by (rule uncaught_prefix) (rule uncaught_for_archs)
    with False Some show ?thesis by (simp add: do_post_build_def Let_def)
  qed
qed


lemma grows_events: "grows P s s' \<Longrightarrow> \<exists>evs. events s' = events s @ evs \<and> (\<forall>e \<in> set evs. P e)"
  by (auto simp: grows_def list_all_iff)

lemma fatal_parse_is_fatal:
  assumes u: "uncaught s r"
      and ev: "ev \<in> set (new_events s (final r))"
      and fatal: "fatal_parse ev"
  shows "(\<exists>f s1. ev = ParseXml f None \<and> r = Inl (ParseError f, emit (ParseXml f None) s1))
       \<or> (\<exists>f root s1 s'. ev = ParseXml f (Some root) \<and> r = Inl (KeyError ''name'', s') \<and>
              grows is_log (emit (ParseXml f (Some root)) s1) s')"
proof (cases r)
  case (Inr xs)
  obtain x s' where xs: "xs = (x, s')" by (cases xs)
  from u Inr xs have "grows sound s s'" by (simp add: uncaught_def)
  from grows_events [OF this] ev Inr xs have "sound ev"
    by (auto simp: new_events_def final_def)
  with fatal show ?thesis by (simp add: sound_def)
next
  case (Inl es)
  obtain e s' where es: "es = (e, s')" by (cases es)
  from u Inl es consider
      (a) "grows sound s s'"
    | (b) s1 f where "grows sound s s1" "s' = emit (ParseXml f None) s1" "e = ParseError f"
    | (c) s1 f root where "grows sound s s1" "\<not> list_all has_name (case_failures root)"
          "grows is_log (emit (ParseXml f (Some root)) s1) s'" "e = KeyError ''name''"
    unfolding uncaught_def by auto
  then show ?thesis
  proof cases
    case a
    from grows_events [OF a] ev Inl es have "sound ev"
      by (auto simp: new_events_def final_def)
    with fatal show ?thesis by (simp add: sound_def)
  next
    case b
    from grows_events [OF b(1)] obtain evs where
      evs: "events s1 = events s @ evs" "\<forall>e \<in> set evs. sound e" by blast
    then have "new_events s s' = evs @ [ParseXml f None]"
      using b(2) by (simp add: new_events_def emit_def)
    with ev Inl es have "ev \<in> set evs \<or> ev = ParseXml f None"
      by (auto simp: final_def)
    with evs(2) fatal have "ev = ParseXml f None" by (auto simp: sound_def)
    with b Inl es show ?thesis by blast
  next
    case c
    from grows_events [OF c(1)] obtain evs where
      evs: "events s1 = events s @ evs" "\<forall>e \<in> set evs. sound e" by blast
    from grows_events [OF c(3)] obtain logs where
      logs: "events s' = events (emit (ParseXml f (Some root)) s1) @ logs" "\<forall>e \<in> set logs. is_log e"
      by blast
    have "new_events s s' = evs @ ParseXml f (Some root) # logs"
      using evs(1) logs(1) by (simp add: new_events_def emit_def)
    with ev Inl es have "ev \<in> set evs \<or> ev = ParseXml f (Some root) \<or> ev \<in> set logs"
      by (auto simp: final_def)
    moreover have "ev \<notin> set evs" using evs(2) fatal by (auto simp: sound_def)
    moreover have "ev \<notin> set logs"
    proof
      assume "ev \<in> set logs"
      with logs(2) have "is_log ev" by blast
      with fatal show False by (cases ev) simp_all
    qed
    ultimately have "ev = ParseXml f (Some root)" by blast
    with c Inl es show ?thesis by blast
  qed
qed

text \<open>
  Claim C6. Parsing a result document that is not well-formed XML raises \<^verbatim>\<open>ParseError\<close>
  in a state that differs from the state before the parse by the trace entry alone: the
  failure count is not incremented for that document. And nothing catches it: whenever a
  run of \<^verbatim>\<open>do_post_build\<close> has parsed a document that is not well-formed, the run has
  ended by raising that \<^verbatim>\<open>ParseError\<close>, in the state of the failed parse.
\<close>

theorem malformed_xml_is_fatal:
  "(xml_parse h xml_result_file (world s) = None \<longrightarrow>
      parse_result_file h test xml_result_file s =
        Inl (ParseError xml_result_file, emit (ParseXml xml_result_file None) s)
      \<and> failure_count (emit (ParseXml xml_result_file None) s) = failure_count s)
   \<and> (ParseXml xml_result_file None \<in> set (new_events s0 (final (do_post_build h env s0))) \<longrightarrow>
      (\<exists>s1. do_post_build h env s0 =
              Inl (ParseError xml_result_file, emit (ParseXml xml_result_file None) s1)))"
proof -
  have "parse_result_file h test xml_result_file s =
        Inl (ParseError xml_result_file, emit (ParseXml xml_result_file None) s)
      \<and> failure_count (emit (ParseXml xml_result_file None) s) = failure_count s"
    if "xml_parse h xml_result_file (world s) = None"
    using that by (simp add: parse_result_file_outcome emit_def)
  moreover have "\<exists>s1. do_post_build h env s0 =
              Inl (ParseError xml_result_file, emit (ParseXml xml_result_file None) s1)"
    if "ParseXml xml_result_file None \<in> set (new_events s0 (final (do_post_build h env s0)))"
    using fatal_parse_is_fatal [OF uncaught_do_post_build that] by auto
  ultimately show ?thesis by blast
qed

lemma broken_run:
  "do_post_build broken_host demo_env start =
     Inl (ParseError ''/b/X64/FooTest.GTEST.X64.result.xml'',
          emit (ParseXml ''/b/X64/FooTest.GTEST.X64.result.xml'' None)
            (start\<lparr>events :=
               [Log SECTION ''Run Host based Unit Tests'',
                SetShellVar ''GTEST_CATCH_EXCEPTIONS'' ''0'',
                SetShellVar ''ASAN_OPTIONS'' ''detect_leaks=0'',
                SetShellVar ''CMOCKA_MESSAGE_OUTPUT'' ''xml'',
                Log SUBSECTION ''Testing for architecture: X64'',
                Glob ''/b/X64/*.result.xml'',
                Glob ''/b/X64/*Test*'',
                Log INFO ''Test file found: /b/X64/FooTest'',
                SetShellVar ''CMOCKA_XML_FILE'' ''/b/X64/FooTest.CMOCKA.%g.X64.result.xml'',
                SetShellVar ''GTEST_OUTPUT'' ''xml:/b/X64/FooTest.GTEST.X64.result.xml'',
                Run (quoted ''/b/X64/FooTest'') [] 0,
                Log INFO ''UnitTest Completed: FooTest'',
                Glob ''/b/X64/FooTest.*.X64.result.xml'']\<rparr>))"
  by (simp add: driver_defs broken_host_def demo_env_def host_defs prim_defs)

theorem malformed_xml_is_fatal_witness:
  "xml_parse broken_host ''/b/X64/FooTest.GTEST.X64.result.xml'' (world start) = None
   \<and> parse_result_file broken_host ''/b/X64/FooTest'' ''/b/X64/FooTest.GTEST.X64.result.xml'' start =
        Inl (ParseError ''/b/X64/FooTest.GTEST.X64.result.xml'',
             emit (ParseXml ''/b/X64/FooTest.GTEST.X64.result.xml'' None) start)
   \<and> ParseXml ''/b/X64/FooTest.GTEST.X64.result.xml'' None
        \<in> set (new_events start (final (do_post_build broken_host demo_env start)))
   \<and> (\<exists>s1. do_post_build broken_host demo_env start =
              Inl (ParseError ''/b/X64/FooTest.GTEST.X64.result.xml'',
                   emit (ParseXml ''/b/X64/FooTest.GTEST.X64.result.xml'' None) s1))"
proof -
  have p: "xml_parse broken_host ''/b/X64/FooTest.GTEST.X64.result.xml'' (world start) = None"
    by (simp add: broken_host_def host_defs)
  have m: "ParseXml ''/b/X64/FooTest.GTEST.X64.result.xml'' None
        \<in> set (new_events start (final (do_post_build broken_host demo_env start)))"
    unfolding broken_run by (simp add: final_def new_events_def emit_def start_def)
  show ?thesis
    using p m malformed_xml_is_fatal [of broken_host "''/b/X64/FooTest.GTEST.X64.result.xml''"
        start "''/b/X64/FooTest''" start demo_env]
    by blast
qed

text \<open>
  Claim C10. When a well-formed result document has a node tagged \<^verbatim>\<open>failure\<close> at the case
  level whose enclosing case has no \<^verbatim>\<open>name\<close> attribute, the tally raises \<^verbatim>\<open>KeyError\<close>:
  the last thing it did is log the test name, and the failure is not counted (the count has
  grown only by the named failures before it). And nothing catches it: whenever a run of
  \<^verbatim>\<open>do_post_build\<close> has parsed such a document, the run has ended by raising
  \<^verbatim>\<open>KeyError\<close> instead of returning a failure count.
\<close>

theorem nameless_case_is_fatal:
  "(xml_parse h xml_result_file (world s) = Some root \<and> \<not> list_all has_name (case_failures root) \<longrightarrow>
      (\<exists>s'. parse_result_file h test xml_result_file s = Inl (KeyError ''name'', s')
         \<and> last (events s') = Log WARNING (os_path_basename h test @ '' Test Failed'')
         \<and> failure_count s' =
             failure_count s + int (length (takeWhile has_name (case_failures root)))))
   \<and> (ParseXml xml_result_file (Some root) \<in> set (new_events s0 (final (do_post_build h env s0)))
        \<and> \<not> list_all has_name (case_failures root) \<longrightarrow>
      (\<exists>s'. do_post_build h env s0 = Inl (KeyError ''name'', s')))"
proof -
  have "\<exists>s'. parse_result_file h test xml_result_file s = Inl (KeyError ''name'', s')
         \<and> last (events s') = Log WARNING (os_path_basename h test @ '' Test Failed'')
         \<and> failure_count s' =
             failure_count s + int (length (takeWhile has_name (case_failures root)))"
    if p: "xml_parse h xml_result_file (world s) = Some root"
    and n: "\<not> list_all has_name (case_failures root)"
  proof -
    let ?s' = "logging WARNING (os_path_basename h test @ '' Test Failed'')
                 (add_failures h test (takeWhile has_name (case_failures root))
                    (emit (ParseXml xml_result_file (Some root)) s))"
    have "parse_result_file h test xml_result_file s = Inl (KeyError ''name'', ?s')"
      using p n by (simp add: parse_result_file_outcome tally_outcome_def)
    moreover have "last (events ?s') = Log WARNING (os_path_basename h test @ '' Test Failed'')"
      by (simp add: logging_def emit_def)
    moreover have "failure_count ?s' =
        failure_count s + int (length (takeWhile has_name (case_failures root)))"
      by (simp add: logging_def emit_def add_failures_def)
    ultimately show ?thesis by blast
  qed
  moreover have "\<exists>s'. do_post_build h env s0 = Inl (KeyError ''name'', s')"
    if "ParseXml xml_result_file (Some root) \<in> set (new_events s0 (final (do_post_build h env s0)))"
    and "\<not> list_all has_name (case_failures root)"
  proof -
    from that(2) have "fatal_parse (ParseXml xml_result_file (Some root))" by simp
    from fatal_parse_is_fatal [OF uncaught_do_post_build that(1) this]
    show ?thesis by auto
  qed
  ultimately show ?thesis by blast
qed

lemma nameless_run:
  "ParseXml ''/b/X64/FooTest.GTEST.X64.result.xml'' (Some mixed_doc)
     \<in> set (new_events start (final (do_post_build nameless_host demo_env start)))"
  by (simp add: driver_defs nameless_host_def demo_env_def host_defs prim_defs mixed_doc_def)

theorem nameless_case_is_fatal_witness:
  "xml_parse nameless_host ''/b/X64/FooTest.GTEST.X64.result.xml'' (world start) = Some mixed_doc
   \<and> \<not> list_all has_name (case_failures mixed_doc)
   \<and> (\<exists>s'. parse_result_file nameless_host ''/b/X64/FooTest'' ''/b/X64/FooTest.GTEST.X64.result.xml'' start
              = Inl (KeyError ''name'', s')
          \<and> last (events s') = Log WARNING ''FooTest Test Failed''
          \<and> failure_count s' = 1)
   \<and> ParseXml ''/b/X64/FooTest.GTEST.X64.result.xml'' (Some mixed_doc)
        \<in> set (new_events start (final (do_post_build nameless_host demo_env start)))
   \<and> (\<exists>s'. do_post_build nameless_host demo_env start = Inl (KeyError ''name'', s'))"
proof -
  have p: "xml_parse nameless_host ''/b/X64/FooTest.GTEST.X64.result.xml'' (world start) = Some mixed_doc"
    by (simp add: nameless_host_def host_defs)
  have n: "\<not> list_all has_name (case_failures mixed_doc)"
    by (simp add: case_failures_def mixed_doc_def has_name_def)
  have t: "length (takeWhile has_name (case_failures mixed_doc)) = 1"
    by (simp add: case_failures_def mixed_doc_def has_name_def)
  have b: "os_path_basename nameless_host ''/b/X64/FooTest'' = ''FooTest''"
    by (simp add: nameless_host_def host_defs)
  have fc: "failure_count start = 0" by (simp add: start_def)
  from nameless_case_is_fatal [of nameless_host "''/b/X64/FooTest.GTEST.X64.result.xml''"
        start mixed_doc "''/b/X64/FooTest''" start demo_env] p n nameless_run
  have "(\<exists>s'. parse_result_file nameless_host ''/b/X64/FooTest'' ''/b/X64/FooTest.GTEST.X64.result.xml'' start
              = Inl (KeyError ''name'', s')
          \<and> last (events s') = Log WARNING (os_path_basename nameless_host ''/b/X64/FooTest'' @ '' Test Failed'')
          \<and> failure_count s' = failure_count start + int (length (takeWhile has_name (case_failures mixed_doc))))
     \<and> (\<exists>s'. do_post_build nameless_host demo_env start = Inl (KeyError ''name'', s'))"
    by blast
  then show ?thesis
    using p n nameless_run by (simp add: t b fc)
qed

section \<open>The coverage pipelines stop at the first failing command\<close>

text \<open>
  For every host and every build environment: the OpenCppCoverage pipeline stops at the
  first command that exits with a non-zero code and returns 1
  (\<open>gen_code_coverage_msvc_stops\<close>); the lcov pipeline does the same at every stage except
  its last one, whose exit code it does not read (\<open>gen_code_coverage_gcc_stops\<close>).
\<close>

lemma stops_prefix:
  assumes g: "grows zero_exit s s1" and st: "stops b s1 r"
  shows "stops b s r"
proof -
  from st consider
      (a) "grows zero_exit s1 (final r)"
    | (b) s2 cmd params ret msg where "grows zero_exit s1 s2" "ret \<noteq> 0"
          "r = Inr (1, logging ERROR msg (emit (Run cmd params ret) s2))"
    | (c) s2 params ret where "b" "grows zero_exit s1 s2" "ret \<noteq> 0"
          "r = Inr (0, emit (Run ''lcov_cobertura'' params ret) s2)"
    unfolding stops_def by blast
  then show ?thesis
  proof cases
    case a
    with g have "grows zero_exit s (final r)" by (rule grows_trans)
    then show ?thesis by (simp add: stops_def)
  next
    case b
    from g b(1) have "grows zero_exit s s2" by (rule grows_trans)
    with b(2,3) show ?thesis unfolding stops_def by blast
  next
    case c
    from g c(2) have "grows zero_exit s s2" by (rule grows_trans)
    with c(1,3,4) show ?thesis unfolding stops_def by blast
  qed
qed

lemma RunCmd_split:
  "\<exists>ret out s1. RunCmd h cmd params wd s = (ret, out, emit (Run cmd params ret) s1)
       \<and> grows zero_exit s s1"
  by (auto simp: RunCmd_def grows_def split: prod.splits)

lemma stops_stage:
  assumes "\<And>s'. stops b s' (rest s')"
  shows "stops b s (stage h cmd params msg rest s)"
proof -
  from RunCmd_split obtain ret out s1 where
    r: "RunCmd h cmd params None s = (ret, out, emit (Run cmd params ret) s1)" and
    g: "grows zero_exit s s1"
    by blast
  show ?thesis
  proof (cases "ret = 0")
    case True
    then have "grows zero_exit s1 (emit (Run cmd params ret) s1)"
      by (intro grows_emit) simp
    with g have "grows zero_exit s (emit (Run cmd params ret) s1)" by (rule grows_trans)
    then have "stops b s (rest (emit (Run cmd params ret) s1))"
      using assms by (rule stops_prefix)
    with True r show ?thesis by (simp add: stage_def)
  next
    case False
    then have "stage h cmd params msg rest s =
                 Inr (1, logging ERROR msg (emit (Run cmd params ret) s1))"
      using r by (simp add: stage_def)
    with g False show ?thesis unfolding stops_def by blast
  qed
qed

lemma stops_zero: "grows zero_exit s (final r) \<Longrightarrow> stops b s r"
  by (simp add: stops_def)


lemma stops_glob: "stops b (emit (Glob pat) s) r \<Longrightarrow> stops b s r"
proof -
  have "grows zero_exit s (emit (Glob pat) s)" by (rule grows_emit) simp
  then show "stops b (emit (Glob pat) s) r \<Longrightarrow> stops b s r" by (rule stops_prefix)
qed

lemma stops_gcc_tail:
  "stops True s9
     (case (if os_path_isfile h f (world s9) then remove_file h f s9 else Inr ((), s9)) of
        Inl e \<Rightarrow> Inl e
      | Inr (_, s10) \<Rightarrow>
          (case RunCmd h ''lcov_cobertura'' params None s10 of
             (ret, _, s11) \<Rightarrow> Inr (0::int, s11)))"
proof -
  let ?m = "if os_path_isfile h f (world s9) then remove_file h f s9 else Inr ((), s9)"
  show ?thesis
  proof (cases ?m)
    case (Inl es)
    then have "final ?m = s9"
      by (auto simp: remove_file_def final_def split: if_splits option.splits)
    with Inl show ?thesis by (simp add: stops_def final_def grows_refl split: prod.splits)
  next
    case (Inr xs)
    obtain x s10 where xs: "xs = (x, s10)" by (cases xs)
    have g10: "grows zero_exit s9 s10"
      using Inr xs
      by (auto simp: remove_file_def grows_def emit_def split: if_splits option.splits)
    from RunCmd_split obtain ret out s1 where
      r: "RunCmd h ''lcov_cobertura'' params None s10 = (ret, out, emit (Run ''lcov_cobertura'' params ret) s1)" and
      g: "grows zero_exit s10 s1"
      by blast
    from g10 g have g1: "grows zero_exit s9 s1" by (rule grows_trans)
    have res: "(case ?m of Inl e \<Rightarrow> Inl e
                | Inr (_, s10) \<Rightarrow>
                    (case RunCmd h ''lcov_cobertura'' params None s10 of
                       (ret, _, s11) \<Rightarrow> Inr (0::int, s11)))
               = Inr (0, emit (Run ''lcov_cobertura'' params ret) s1)"
      using Inr xs r by simp
    show ?thesis
    proof (cases "ret = 0")
      case True
      then have "grows zero_exit s1 (emit (Run ''lcov_cobertura'' params ret) s1)"
        by (intro grows_emit) simp
      with g1 have "grows zero_exit s9 (emit (Run ''lcov_cobertura'' params ret) s1)"
        by (rule grows_trans)
      then show ?thesis unfolding res by (simp add: stops_def final_def)
    next
      case False
      with g1 show ?thesis unfolding res stops_def by blast
    qed
  qed
qed

lemma gen_code_coverage_gcc_stops: "stops True s (gen_code_coverage_gcc h env s)"
proof -
  let ?s0 = "logging INFO ''Generating UnitTest code coverage'' s"
  have g0: "grows zero_exit s ?s0" by (rule grows_logging) simp
  from RunCmd_split obtain ret out s1 where
    r: "RunCmd h ''lcov'' ''--version'' None ?s0 = (ret, out, emit (Run ''lcov'' ''--version'' ret) s1)" and
    g: "grows zero_exit ?s0 s1"
    by blast
  let ?sx = "emit (Run ''lcov'' ''--version'' ret) s1"
  from g0 g have g1: "grows zero_exit s s1" by (rule grows_trans)
  show ?thesis
  proof (cases "ret = 0")
    case False
    then have "gen_code_coverage_gcc h env s =
        Inr (1, logging ERROR ''UnitTest Coverage: Failed to determine lcov version'' ?sx)"
      using r by (simp add: gen_code_coverage_gcc_def get_lcov_version_def Let_def)
    with g1 False show ?thesis unfolding stops_def by blast
  next
    case True
    then have "grows zero_exit s1 ?sx" by (intro grows_emit) simp
    with g1 have gx: "grows zero_exit s ?sx" by (rule grows_trans)
    have lg: "grows zero_exit s (logging lvl msg ?sx)" for lvl msg
      by (rule grows_trans [OF gx]) (rule grows_logging, simp)
    show ?thesis
    proof (cases "re_search_version out")
      case None
      with True r have "gen_code_coverage_gcc h env s = Inl (AttributeError ''groups'', ?sx)"
        by (simp add: gen_code_coverage_gcc_def get_lcov_version_def Let_def)
      with gx show ?thesis by (simp add: stops_def final_def)
    next
      case (Some mm)
      obtain major minor where mm: "mm = (major, minor)" by (cases mm)
      have v: "get_lcov_version h ?s0 = Inr (Some (int_of_digits major), ?sx)"
        using True r Some mm by (simp add: get_lcov_version_def)
      show ?thesis
      proof (cases "int_of_digits major = 0")
        case z: True
        with v have "gen_code_coverage_gcc h env s =
            Inr (1, logging ERROR ''UnitTest Coverage: Failed to determine lcov version'' ?sx)"
          by (simp add: gen_code_coverage_gcc_def Let_def)
        with lg show ?thesis by (simp add: stops_def final_def)
      next
        case nz: False
        show ?thesis
          using v nz
          apply (simp add: gen_code_coverage_gcc_def Let_def del: append_assoc)
          apply (rule stops_prefix [OF lg])
          apply (rule stops_stage)+
          apply (simp only: glob_glob_def prod.case)
          apply (rule stops_glob)
          apply (rule stops_stage)
          apply (rule stops_gcc_tail)
          done
      qed
    qed
  qed
qed


lemma loop_step:
  assumes r: "RunCmd h cmd params None s = (ret, out, emit (Run cmd params ret) s1)"
      and g: "grows zero_exit s s1"
      and z: "ret = 0"
  shows "grows zero_exit s (emit (Run cmd params ret) s1)"
proof -
  from z have "grows zero_exit s1 (emit (Run cmd params ret) s1)" by (intro grows_emit) simp
  with g show ?thesis by (rule grows_trans)
qed

lemma loop_stops_prefix:
  "grows zero_exit s s1 \<Longrightarrow> loop_stops s1 rs \<Longrightarrow> loop_stops s rs"
  unfolding loop_stops_def by (blast intro: grows_trans)

lemma loop_stops_fail:
  "grows zero_exit s s1 \<Longrightarrow> ret \<noteq> 0 \<Longrightarrow>
     loop_stops s (Some 1, logging ERROR msg (emit (Run cmd params ret) s1))"
  unfolding loop_stops_def fst_conv snd_conv by blast

lemma for_testFiles_stops:
  "loop_stops s (for_testFiles h workspace workspaceBuild buildOutputBase testList s)"
proof (induction testList arbitrary: s)
  case Nil
  show ?case by (simp add: loop_stops_def grows_refl)
next
  case (Cons t ts)
  let ?p1 = "''--source '' @ workspace @ '' --export_type binary:'' @ t @ ''.cov -- '' @ t"
  from RunCmd_split obtain ret out s1 where
    r1: "RunCmd h ''OpenCppCoverage'' ?p1 None s = (ret, out, emit (Run ''OpenCppCoverage'' ?p1 ret) s1)" and
    g1: "grows zero_exit s s1"
    by blast
  show ?case
  proof (cases "ret = 0")
    case False
    with r1 loop_stops_fail [OF g1 False] show ?thesis by simp
  next
    case True
    let ?sa = "emit (Run ''OpenCppCoverage'' ?p1 ret) s1"
    have ga: "grows zero_exit s ?sa" by (rule loop_step [OF r1 g1 True])
    let ?total = "os_path_join h buildOutputBase ''coverage.cov''"
    let ?p2 = "''--export_type binary:'' @ ?total @ '' '' @ ''--working_dir='' @ workspaceBuild @ '' '' @
               ('' --input_coverage='' @ t @ ''.cov'' @
                 (if os_path_isfile h ?total (world ?sa) then '' --input_coverage='' @ ?total else []))"
    from RunCmd_split obtain ret2 out2 s2 where
      r2: "RunCmd h ''OpenCppCoverage'' ?p2 None ?sa = (ret2, out2, emit (Run ''OpenCppCoverage'' ?p2 ret2) s2)" and
      g2: "grows zero_exit ?sa s2"
      by blast
    from ga g2 have g2': "grows zero_exit s s2" by (rule grows_trans)
    show ?thesis
    proof (cases "ret2 = 0")
      case False
      with True r1 r2 loop_stops_fail [OF g2' False] show ?thesis by (simp add: Let_def)
    next
      case ok: True
      let ?sb = "emit (Run ''OpenCppCoverage'' ?p2 ret2) s2"
      have "grows zero_exit s2 ?sb" using ok by (intro grows_emit) simp
      with g2' have "grows zero_exit s ?sb" by (rule grows_trans)
      from loop_stops_prefix [OF this Cons.IH [of ?sb]] True ok r1 r2
      show ?thesis by (simp add: Let_def)
    qed
  qed
qed

lemma for_testCoverages_stops:
  "loop_stops s (for_testCoverages h workspaceBuild testCoverageList s)"
proof (induction testCoverageList arbitrary: s)
  case Nil
  show ?case by (simp add: loop_stops_def grows_refl)
next
  case (Cons t ts)
  let ?total = "os_path_join h workspaceBuild ''coverage.cov''"
  let ?p = "''--export_type binary:'' @ ?total @ '' '' @ ''--working_dir='' @ workspaceBuild @ '' '' @
             ('' --input_coverage='' @ t @
               (if os_path_isfile h ?total (world s) then '' --input_coverage='' @ ?total else []))"
  from RunCmd_split obtain ret out s1 where
    r1: "RunCmd h ''OpenCppCoverage'' ?p None s = (ret, out, emit (Run ''OpenCppCoverage'' ?p ret) s1)" and
    g1: "grows zero_exit s s1"
    by blast
  show ?case
  proof (cases "ret = 0")
    case False
    with r1 loop_stops_fail [OF g1 False] show ?thesis by (simp add: Let_def)
  next
    case True
    let ?sa = "emit (Run ''OpenCppCoverage'' ?p ret) s1"
    have ga: "grows zero_exit s ?sa" by (rule loop_step [OF r1 g1 True])
    from loop_stops_prefix [OF ga Cons.IH [of ?sa]] True r1
    show ?thesis by (simp add: Let_def)
  qed
qed

lemma stops_loop:
  assumes l: "loop_stops s rs"
      and k: "\<And>s'. stops b s' (rest s')"
  shows "stops b s (case rs of (Some r, s') \<Rightarrow> Inr (r, s') | (None, s') \<Rightarrow> rest s')"
proof -
  obtain r s' where ls: "rs = (r, s')" by (cases rs)
  from l ls consider
      (a) "r = None" "grows zero_exit s s'"
    | (b) s1 cmd params ret msg where "r = Some 1" "grows zero_exit s s1" "ret \<noteq> 0"
          "s' = logging ERROR msg (emit (Run cmd params ret) s1)"
    unfolding loop_stops_def by auto
  then show ?thesis
  proof cases
    case a
    from stops_prefix [OF a(2) k [of s']] a(1) ls show ?thesis by simp
  next
    case b
    then have "(case rs of (Some r, s') \<Rightarrow> Inr (r, s') | (None, s') \<Rightarrow> rest s') =
                 Inr (1, logging ERROR msg (emit (Run cmd params ret) s1))"
      using ls by simp
    with b(2,3) show ?thesis unfolding stops_def by blast
  qed
qed

lemma stops_msvc_workspace:
  "stops False s3
     (case glob_glob h pat True s3 of
        (testCoverageList, s4) \<Rightarrow>
          (case for_testCoverages h workspaceBuild testCoverageList s4 of
             (Some r, s5) \<Rightarrow> Inr (r, s5)
           | (None, s5) \<Rightarrow> stage h cmd params msg (\<lambda>s6. Inr (0, s6)) s5))"
proof -
  have fin: "stops False s' (Inr (0, s'))" for s' :: "'a state"
    by (simp add: stops_def final_def grows_refl)
  have "stops False (emit (Glob pat) s3)
     (case for_testCoverages h workspaceBuild (glob_files h pat True (world s3)) (emit (Glob pat) s3) of
        (Some r, s5) \<Rightarrow> Inr (r, s5)
      | (None, s5) \<Rightarrow> stage h cmd params msg (\<lambda>s6. Inr (0, s6)) s5)"
    by (rule stops_loop [OF for_testCoverages_stops]) (rule stops_stage, rule fin)
  then have "stops False s3
     (case for_testCoverages h workspaceBuild (glob_files h pat True (world s3)) (emit (Glob pat) s3) of
        (Some r, s5) \<Rightarrow> Inr (r, s5)
      | (None, s5) \<Rightarrow> stage h cmd params msg (\<lambda>s6. Inr (0, s6)) s5)"
    by (rule stops_glob)
  then show ?thesis by (simp add: glob_glob_def)
qed

lemma gen_code_coverage_msvc_stops: "stops False s (gen_code_coverage_msvc h env s)"
proof -
  let ?s0 = "logging INFO ''Generating UnitTest code coverage'' s"
  have g0: "grows zero_exit s ?s0" by (rule grows_logging) simp
  have rs: "stops False s (Inl (e, s'))" if "grows zero_exit s s'" for s' :: "'a state" and e
    using that by (simp add: stops_def final_def)
  show ?thesis
  proof (cases "GetValue env ''BUILD_OUTPUT_BASE''")
    case None
    with rs [OF g0] show ?thesis by (simp add: gen_code_coverage_msvc_def)
  next
    case bob: (Some bob)
    let ?pat = "os_path_join h (os_path_join h bob ''**'') ''*Test*.exe''"
    let ?s1 = "emit (Glob ?pat) ?s0"
    let ?testList = "glob_files h ?pat True (world ?s0)"
    have "grows zero_exit ?s0 ?s1" by (rule grows_emit) simp
    with g0 have g1: "grows zero_exit s ?s1" by (rule grows_trans)
    show ?thesis
    proof (cases "GetValue env ''WORKSPACE''")
      case None
      with bob rs [OF g1] show ?thesis
        by (simp add: gen_code_coverage_msvc_def glob_glob_def)
    next
      case ws: (Some ws)
      show ?thesis
      proof (cases "ws = []")
        case True
        with bob ws rs [OF g1] show ?thesis
          by (simp add: gen_code_coverage_msvc_def glob_glob_def)
      next
        case False
        let ?workspace = "if last ws \<noteq> os_sep h then ws @ [os_sep h] else ws"
        let ?wsb = "os_path_join h ?workspace ''Build''"
        have rest: "stops False s2
            (if ?testList = [] then Inl (UnboundLocalError ''totalCoverageFile'', s2)
             else stage h cmd params msg
                    (\<lambda>s3. case glob_glob h pat True s3 of
                       (testCoverageList, s4) \<Rightarrow>
                         (case for_testCoverages h ?wsb testCoverageList s4 of
                            (Some r, s5) \<Rightarrow> Inr (r, s5)
                          | (None, s5) \<Rightarrow> stage h cmd2 params2 msg2 (\<lambda>s6. Inr (0, s6)) s5)) s2)"
          for s2 cmd params msg pat cmd2 params2 msg2
        proof (cases "?testList = []")
          case True
          then show ?thesis by (simp add: stops_def final_def grows_refl)
        next
          case False
          have "stops False s2 (stage h cmd params msg
                    (\<lambda>s3. case glob_glob h pat True s3 of
                       (testCoverageList, s4) \<Rightarrow>
                         (case for_testCoverages h ?wsb testCoverageList s4 of
                            (Some r, s5) \<Rightarrow> Inr (r, s5)
                          | (None, s5) \<Rightarrow> stage h cmd2 params2 msg2 (\<lambda>s6. Inr (0, s6)) s5)) s2)"
            by (rule stops_stage) (rule stops_msvc_workspace)
          with False show ?thesis by simp
        qed
        have "stops False ?s1
           (case for_testFiles h ?workspace ?wsb bob ?testList ?s1 of
              (Some r, s2) \<Rightarrow> Inr (r, s2)
            | (None, s2) \<Rightarrow>
                (if ?testList = [] then Inl (UnboundLocalError ''totalCoverageFile'', s2)
                 else stage h cmd params msg
                    (\<lambda>s3. case glob_glob h pat True s3 of
                       (testCoverageList, s4) \<Rightarrow>
                         (case for_testCoverages h ?wsb testCoverageList s4 of
                            (Some r, s5) \<Rightarrow> Inr (r, s5)
                          | (None, s5) \<Rightarrow> stage h cmd2 params2 msg2 (\<lambda>s6. Inr (0, s6)) s5)) s2))"
          for cmd params msg pat cmd2 params2 msg2
          by (rule stops_loop [OF for_testFiles_stops]) (rule rest)
        from stops_prefix [OF g1 this] bob ws False show ?thesis
          by (simp add: gen_code_coverage_msvc_def glob_glob_def Let_def)
      qed
    qed
  qed
qed

section \<open>Result files per architecture\<close>

text \<open>
  Every result file that the processing of an architecture names (the values of
  \<^verbatim>\<open>CMOCKA_XML_FILE\<close> and \<^verbatim>\<open>GTEST_OUTPUT\<close> in its trace) ends with a dot, the architecture
  and \<^verbatim>\<open>.result.xml\<close>: the test loop is the only place that sets the two variables, and
  discovery, the removal of old results, the parsing and both coverage pipelines set none.
\<close>

lemma last_segment:
  assumes "CHR ''.'' \<notin> set a"
  shows "takeWhile (\<lambda>c. c \<noteq> CHR ''.'') (rev (x @ CHR ''.'' # a)) = rev a"
proof -
  have "rev (x @ CHR ''.'' # a) = rev a @ CHR ''.'' # rev x" by simp
  moreover have "takeWhile (\<lambda>c. c \<noteq> CHR ''.'') (rev a @ CHR ''.'' # rev x)
                   = takeWhile (\<lambda>c. c \<noteq> CHR ''.'') (rev a)"
    by (rule takeWhile_tail) simp
  moreover have "takeWhile (\<lambda>c. c \<noteq> CHR ''.'') (rev a) = rev a"
    using assms by (auto simp: takeWhile_eq_all_conv)
  ultimately show ?thesis by simp
qed

lemma arch_determined:
  assumes e: "x @ CHR ''.'' # a1 @ sfx = y @ CHR ''.'' # a2 @ sfx"
      and "CHR ''.'' \<notin> set a1" "CHR ''.'' \<notin> set a2"
  shows "a1 = a2"
proof -
  from e have "(x @ CHR ''.'' # a1) @ sfx = (y @ CHR ''.'' # a2) @ sfx" by simp
  then have "x @ CHR ''.'' # a1 = y @ CHR ''.'' # a2" by (simp only: append_same_eq)
  then have "takeWhile (\<lambda>c. c \<noteq> CHR ''.'') (rev (x @ CHR ''.'' # a1))
           = takeWhile (\<lambda>c. c \<noteq> CHR ''.'') (rev (y @ CHR ''.'' # a2))"
    by (rule arg_cong)
  then have "rev a1 = rev a2"
    by (simp only: last_segment [OF assms(2)] last_segment [OF assms(3)])
  then show ?thesis by simp
qed

lemma names_archs_other [simp]:
  "names_archs A (Log lvl msg)" "names_archs A (Run cmd params ret)" "names_archs A (Glob pat)"
  "names_archs A (Remove p)" "names_archs A (ParseXml f parsed)"
  by (simp_all add: names_archs_def)

lemma is_io_names: "is_io e \<Longrightarrow> names_archs A e"
  by (cases e) simp_all

lemma is_log_names: "is_log e \<Longrightarrow> names_archs A e"
  by (cases e) simp_all

lemma names_archs_cmocka:
  "arch \<in> A \<Longrightarrow> names_archs A (SetShellVar ''CMOCKA_XML_FILE'' (cmocka_xml_file test arch))"
proof -
  assume "arch \<in> A"
  moreover have "cmocka_xml_file test arch = (test @ ''.CMOCKA.%g'') @ CHR ''.'' # arch @ ''.result.xml''"
    by (simp add: cmocka_xml_file_def)
  ultimately show ?thesis
    unfolding names_archs_def by (simp del: append_assoc) blast
qed

lemma names_archs_gtest:
  "arch \<in> A \<Longrightarrow> names_archs A (SetShellVar ''GTEST_OUTPUT'' (''xml:'' @ gtest_xml_file test arch))"
proof -
  assume "arch \<in> A"
  moreover have "drop 4 (''xml:'' @ gtest_xml_file test arch)
                   = (test @ ''.GTEST'') @ CHR ''.'' # arch @ ''.result.xml''"
    by (simp add: gtest_xml_file_def)
  ultimately show ?thesis
    unfolding names_archs_def by (simp del: append_assoc) blast
qed

lemma grows_bind:
  assumes "grows P s (final r)" and "\<And>x s'. grows P s' (final (k x s'))"
  shows "grows P s (final (case r of Inl e \<Rightarrow> Inl e | Inr (x, s') \<Rightarrow> k x s'))"
proof (cases r)
  case (Inl es)
  with assms(1) show ?thesis by (cases es) (simp add: final_def)
next
  case (Inr xs)
  obtain x s' where xs: "xs = (x, s')" by (cases xs)
  from assms(1) Inr xs have "grows P s s'" by (simp add: final_def)
  from grows_trans [OF this assms(2) [of s' x]] Inr xs show ?thesis by simp
qed

lemma grows_parse_result_file_names:
  "grows (names_archs A) s (final (parse_result_file h test f s))"
proof (cases "xml_parse h f (world s)")
  case None
  have "grows (names_archs A) s (emit (ParseXml f None) s)" by (rule grows_emit) simp
  with None show ?thesis by (simp add: parse_result_file_outcome final_def)
next
  case (Some root)
  let ?s1 = "emit (ParseXml f (Some root)) s"
  have g1: "grows (names_archs A) s ?s1" by (rule grows_emit) simp
  have a: "grows (names_archs A) ?s1 (add_failures h test crs ?s1)" for crs
    by (rule grows_mono [OF _ grows_add_failures]) (rule is_log_names)
  show ?thesis
  proof (cases "list_all has_name (case_failures root)")
    case True
    from grows_trans [OF g1 a [of "case_failures root"]] Some True show ?thesis
      by (simp add: parse_result_file_outcome tally_outcome_def final_def)
  next
    case False
    let ?s2 = "add_failures h test (takeWhile has_name (case_failures root)) ?s1"
    have "grows (names_archs A) ?s2 (logging WARNING (os_path_basename h test @ '' Test Failed'') ?s2)"
      by (rule grows_logging) simp
    from grows_trans [OF grows_trans [OF g1 a] this] Some False show ?thesis
      by (simp add: parse_result_file_outcome tally_outcome_def final_def)
  qed
qed

lemma grows_for_xml_results_names:
  "grows (names_archs A) s (final (for_xml_results h test fs s))"
proof (induction fs arbitrary: s)
  case Nil
  show ?case by (simp add: final_def grows_refl)
next
  case (Cons f fs)
  have "grows (names_archs A) s
          (final (case parse_result_file h test f s of
                    Inl e \<Rightarrow> Inl e
                  | Inr (x, s') \<Rightarrow> for_xml_results h test fs s'))"
    by (rule grows_bind [OF grows_parse_result_file_names]) (rule Cons.IH)
  then show ?case by simp
qed

lemma grows_run_test_names:
  assumes "arch \<in> A"
  shows "grows (names_archs A) s (final (run_test h arch cp test s))"
proof -
  let ?s1 = "set_shell_var h ''CMOCKA_XML_FILE'' (cmocka_xml_file test arch) s"
  let ?s2 = "set_shell_var h ''GTEST_OUTPUT'' (''xml:'' @ gtest_xml_file test arch) ?s1"
  obtain ret out s3 where r: "RunCmd h (quoted test) [] (Some cp) ?s2 = (ret, out, s3)"
    by (cases "RunCmd h (quoted test) [] (Some cp) ?s2") auto
  have "grows (names_archs A) s ?s1"
    by (rule grows_set_shell_var) (rule names_archs_cmocka [OF assms])
  moreover have "grows (names_archs A) ?s1 ?s2"
    by (rule grows_set_shell_var) (rule names_archs_gtest [OF assms])
  moreover have "grows (names_archs A) ?s2 s3" by (rule grows_RunCmd [OF r]) simp
  ultimately have g3: "grows (names_archs A) s s3" by (blast intro: grows_trans)
  show ?thesis
  proof (cases "ret = 0")
    case False
    let ?s4 = "logging ERROR (''UnitTest Execution Error: '' @ os_path_basename h test) s3"
    have "grows (names_archs A) s3 ?s4" by (rule grows_logging) simp
    with g3 have "grows (names_archs A) s ?s4" by (rule grows_trans)
    then have "grows (names_archs A) s (?s4\<lparr>failure_count := failure_count ?s4 + 1\<rparr>)"
      by (rule grows_count)
    with False r show ?thesis
      by (simp add: run_test_def Let_def final_def)
  next
    case True
    let ?s4 = "logging INFO (''UnitTest Completed: '' @ os_path_basename h test) s3"
    let ?s5 = "emit (Glob (file_match_pattern test arch)) ?s4"
    have "grows (names_archs A) s3 ?s4" by (rule grows_logging) simp
    moreover have "grows (names_archs A) ?s4 ?s5" by (rule grows_emit) simp
    ultimately have "grows (names_archs A) s ?s5" using g3 by (blast intro: grows_trans)
    from grows_trans [OF this grows_for_xml_results_names] True r show ?thesis
      by (simp add: run_test_def Let_def glob_glob_def)
  qed
qed

lemma grows_for_tests_names:
  assumes "arch \<in> A"
  shows "grows (names_archs A) s (final (for_tests h arch cp tests s))"
proof (induction tests arbitrary: s)
  case Nil
  show ?case by (simp add: final_def grows_refl)
next
  case (Cons t ts)
  have "grows (names_archs A) s
          (final (case run_test h arch cp t s of
                    Inl e \<Rightarrow> Inl e
                  | Inr (x, s') \<Rightarrow> for_tests h arch cp ts s'))"
    by (rule grows_bind [OF grows_run_test_names [OF assms]]) (rule Cons.IH)
  then show ?case by simp
qed

lemma grows_for_archs_names:
  assumes "set archs \<subseteq> A"
  shows "grows (names_archs A) s (final (for_archs h env path archs s))"
  using assms
proof (induction archs arbitrary: s)
  case Nil
  show ?case by (simp add: final_def grows_refl)
next
  case (Cons arch rest)
  then have A: "arch \<in> A" and rest: "set rest \<subseteq> A" by simp_all
  let ?s1 = "logging SUBSECTION (''Testing for architecture: '' @ arch) s"
  have g1: "grows (names_archs A) s ?s1" by (rule grows_logging) simp
  show ?case
  proof (cases path)
    case None
    with g1 show ?thesis by (simp add: final_def Let_def)
  next
    case (Some path')
    let ?cp = "os_path_join h path' arch"
    let ?s2 = "emit (Glob (os_path_join h ?cp ''*.result.xml'')) ?s1"
    let ?olds = "glob_files h (os_path_join h ?cp ''*.result.xml'') False (world ?s1)"
    have "grows (names_archs A) ?s1 ?s2" by (rule grows_emit) simp
    with g1 have g2: "grows (names_archs A) s ?s2" by (rule grows_trans)
    have io: "grows (names_archs A) t (final r)" if "grows is_io t (final r)"
      for t :: "'a state" and r :: "('a, 'b) result"
      using that by (rule grows_mono [rotated]) (rule is_io_names)
    have tail: "grows (names_archs A) s4
        (final (if testList = [] then Inr (0, logging WARNING no_tests_message s4)
         else (case for_tests h arch ?cp testList s4 of
                 Inl e \<Rightarrow> Inl e
               | Inr (x, s5) \<Rightarrow>
                   (case code_coverage h env s5 of
                      Inl e \<Rightarrow> Inl e
                    | Inr (y, s6) \<Rightarrow> for_archs h env (Some path') rest s6))))" for testList s4
    proof (cases "testList = []")
      case True
      have "grows (names_archs A) s4 (logging WARNING no_tests_message s4)"
        by (rule grows_logging) simp
      with True show ?thesis by (simp add: final_def)
    next
      case False
      have "grows (names_archs A) s4
              (final (case for_tests h arch ?cp testList s4 of
                 Inl e \<Rightarrow> Inl e
               | Inr (x, s5) \<Rightarrow>
                   (case code_coverage h env s5 of
                      Inl e \<Rightarrow> Inl e
                    | Inr (y, s6) \<Rightarrow> for_archs h env (Some path') rest s6)))"
        by (intro grows_bind grows_for_tests_names [OF A] io grows_code_coverage
            Cons.IH [OF rest, unfolded Some])
      with False show ?thesis by simp
    qed
    have "grows (names_archs A) ?s2
       (final (case for_old_results h ?olds ?s2 of
          Inl e \<Rightarrow> Inl e
        | Inr (x, s3) \<Rightarrow>
            (case discover_tests h ?cp s3 of
               Inl e \<Rightarrow> Inl e
             | Inr (testList, s4) \<Rightarrow>
                 if testList = [] then Inr (0, logging WARNING no_tests_message s4)
                 else (case for_tests h arch ?cp testList s4 of
                         Inl e \<Rightarrow> Inl e
                       | Inr (x, s5) \<Rightarrow>
                           (case code_coverage h env s5 of
                              Inl e \<Rightarrow> Inl e
                            | Inr (y, s6) \<Rightarrow> for_archs h env (Some path') rest s6)))))"
      by (intro grows_bind io grows_for_old_results grows_discover_tests tail)
    from grows_trans [OF g2 this] Some show ?thesis
      by (simp add: Let_def glob_glob_def)
  qed
qed

lemma result_file_named:
  assumes "grows (names_archs {arch}) s s'" and "f \<in> set (result_files (new_events s s'))"
  shows "\<exists>x. f = x @ CHR ''.'' # arch @ ''.result.xml''"
proof -
  from assms(1) have "list_all (names_archs {arch}) (new_events s s')" by (rule grows_new_events)
  moreover from assms(2) obtain e where "e \<in> set (new_events s s')" "f \<in> set (result_file_of e)"
    by (auto simp: result_files_def)
  ultimately show ?thesis by (auto simp: list_all_iff names_archs_def)
qed

text \<open>
  Claim C3, as amended. For two distinct architectures whose names contain no dot,
  processed against the same host, build variables and build-output root, the result files
  the pipeline derives for them are disjoint, because the architecture is the last segment
  of every result file name before \<^verbatim>\<open>.result.xml\<close>. The result files of an architecture are
  read off the trace of \<^verbatim>\<open>for_archs\<close> on that architecture (clean-up, discovery, test runs,
  parsing and coverage), from any state.
\<close>

theorem result_files_disjoint:
  assumes "a1 \<noteq> a2" "CHR ''.'' \<notin> set a1" "CHR ''.'' \<notin> set a2"
  shows "set (result_files (new_events s1 (final (for_archs h env path [a1] s1))))
       \<inter> set (result_files (new_events s2 (final (for_archs h env path [a2] s2)))) = {}"
proof (rule ccontr)
  assume "set (result_files (new_events s1 (final (for_archs h env path [a1] s1))))
       \<inter> set (result_files (new_events s2 (final (for_archs h env path [a2] s2)))) \<noteq> {}"
  then obtain f where
    f1: "f \<in> set (result_files (new_events s1 (final (for_archs h env path [a1] s1))))" and
    f2: "f \<in> set (result_files (new_events s2 (final (for_archs h env path [a2] s2))))"
    by blast
  have "grows (names_archs {a1}) s1 (final (for_archs h env path [a1] s1))"
    by (rule grows_for_archs_names) simp
  from result_file_named [OF this f1] obtain x where x: "f = x @ CHR ''.'' # a1 @ ''.result.xml''" ..
  have "grows (names_archs {a2}) s2 (final (for_archs h env path [a2] s2))"
    by (rule grows_for_archs_names) simp
  from result_file_named [OF this f2] obtain y where y: "f = y @ CHR ''.'' # a2 @ ''.result.xml''" ..
  from x y have "x @ CHR ''.'' # a1 @ ''.result.xml'' = y @ CHR ''.'' # a2 @ ''.result.xml''" by simp
  from arch_determined [OF this assms(2,3)] assms(1) show False by simp
qed

lemmas run_defs = driver_defs gcc_defs host_defs prim_defs str_nat.simps result_files_def

lemma IA32_result_files:
  "result_files (new_events start (final (for_archs both_arch_host coverage_env (Some ''/b'') [''IA32''] start)))
     = [''/b/IA32/FooTest.CMOCKA.%g.IA32.result.xml'', ''/b/IA32/FooTest.GTEST.IA32.result.xml'']"
  by (simp add: run_defs both_arch_host_def coverage_env_def)

lemma X64_result_files:
  "result_files (new_events start (final (for_archs both_arch_host coverage_env (Some ''/b'') [''X64''] start)))
     = [''/b/X64/FooTest.CMOCKA.%g.X64.result.xml'', ''/b/X64/FooTest.GTEST.X64.result.xml'']"
  by (simp add: run_defs both_arch_host_def coverage_env_def)

text \<open>
  The theorem at the architectures IA32 and X64 of one package, with the result files of
  each.
\<close>

theorem result_files_disjoint_witness:
  "''IA32'' \<noteq> ''X64'' \<and> CHR ''.'' \<notin> set ''IA32'' \<and> CHR ''.'' \<notin> set ''X64''
   \<and> result_files (new_events start (final (for_archs both_arch_host coverage_env (Some ''/b'') [''IA32''] start)))
     = [''/b/IA32/FooTest.CMOCKA.%g.IA32.result.xml'', ''/b/IA32/FooTest.GTEST.IA32.result.xml'']
   \<and> result_files (new_events start (final (for_archs both_arch_host coverage_env (Some ''/b'') [''X64''] start)))
     = [''/b/X64/FooTest.CMOCKA.%g.X64.result.xml'', ''/b/X64/FooTest.GTEST.X64.result.xml'']
   \<and> set (result_files (new_events start (final (for_archs both_arch_host coverage_env (Some ''/b'') [''IA32''] start))))
       \<inter> set (result_files (new_events start (final (for_archs both_arch_host coverage_env (Some ''/b'') [''X64''] start)))) = {}"
proof -
  have h: "''IA32'' \<noteq> ''X64''" "CHR ''.'' \<notin> set ''IA32''" "CHR ''.'' \<notin> set ''X64''"
    by simp_all
  from result_files_disjoint [OF h] IA32_result_files X64_result_files h show ?thesis
    by blast
qed

lemma IA32_coverage_commands:
  "Run ''lcov'' ''--no-external --capture --initial --directory /b --output-file /b/cov-base.info --rc lcov_branch_coverage=1 '' 0
     \<in> set (new_events start (final (for_archs both_arch_host coverage_env (Some ''/b'') [''IA32''] start)))"
  "Run ''lcov'' ''--add-tracefile /b/cov-base.info --add-tracefile /b/coverage-test.info --output-file /b/total-coverage.info --rc lcov_branch_coverage=1 '' 0
     \<in> set (new_events start (final (for_archs both_arch_host coverage_env (Some ''/b'') [''IA32''] start)))"
  "Run ''lcov_cobertura'' ''/b/total-coverage.info -o /b/compare.xml'' 0
     \<in> set (new_events start (final (for_archs both_arch_host coverage_env (Some ''/b'') [''IA32''] start)))"
  by (simp_all add: run_defs both_arch_host_def coverage_env_def)

lemma X64_coverage_commands:
  "Run ''lcov'' ''--no-external --capture --initial --directory /b --output-file /b/cov-base.info --rc lcov_branch_coverage=1 '' 0
     \<in> set (new_events start (final (for_archs both_arch_host coverage_env (Some ''/b'') [''X64''] start)))"
  "Run ''lcov'' ''--add-tracefile /b/cov-base.info --add-tracefile /b/coverage-test.info --output-file /b/total-coverage.info --rc lcov_branch_coverage=1 '' 0
     \<in> set (new_events start (final (for_archs both_arch_host coverage_env (Some ''/b'') [''X64''] start)))"
  "Run ''lcov_cobertura'' ''/b/total-coverage.info -o /b/compare.xml'' 0
     \<in> set (new_events start (final (for_archs both_arch_host coverage_env (Some ''/b'') [''X64''] start)))"
  by (simp_all add: run_defs both_arch_host_def coverage_env_def)

lemma dotted_result_files:
  "result_files (new_events start (final (for_archs dotted_arch_host dotted_arch_env
       (Some ''/BTest.GTEST.ATest.GTEST.'') [''/BTest.GTEST.ATest.GTEST.''] start)))
     = [''/BTest.GTEST.ATest.GTEST./ATest.CMOCKA.%g./BTest.GTEST.ATest.GTEST..result.xml'',
        ''/BTest.GTEST.ATest.GTEST./ATest.GTEST./BTest.GTEST.ATest.GTEST..result.xml'']"
  "result_files (new_events start (final (for_archs dotted_arch_host dotted_arch_env
       (Some ''/BTest.GTEST.ATest.GTEST.'') [''ATest.GTEST.''] start)))
     = [''/BTest.GTEST.ATest.GTEST./ATest.GTEST./BTest.CMOCKA.%g.ATest.GTEST..result.xml'',
        ''/BTest.GTEST.ATest.GTEST./ATest.GTEST./BTest.GTEST.ATest.GTEST..result.xml'']"
  by (simp_all add: run_defs dotted_arch_host_def dotted_arch_env_def)

text \<open>
  Claim C3 as stated fails, in two ways. The coverage pipeline takes no architecture: for
  IA32 and for X64 it runs the same command lines, which write the same snapshot
  \<^verbatim>\<open>/b/cov-base.info\<close>, the same aggregate \<^verbatim>\<open>/b/total-coverage.info\<close> and the same report
  \<^verbatim>\<open>/b/compare.xml\<close>. And an architecture name with dots can repeat a test name and a
  framework segment: the test \<^verbatim>\<open>ATest\<close> of the architecture \<^verbatim>\<open>/BTest.GTEST.ATest.GTEST.\<close>
  and the test \<^verbatim>\<open>BTest\<close> of the architecture \<^verbatim>\<open>ATest.GTEST.\<close> are given the same
  \<^verbatim>\<open>GTEST_OUTPUT\<close> file.
\<close>

theorem architectures_share_files:
  "''IA32'' \<noteq> ''X64''
   \<and> Run ''lcov'' ''--no-external --capture --initial --directory /b --output-file /b/cov-base.info --rc lcov_branch_coverage=1 '' 0
     \<in> set (new_events start (final (for_archs both_arch_host coverage_env (Some ''/b'') [''IA32''] start)))
   \<and> Run ''lcov'' ''--no-external --capture --initial --directory /b --output-file /b/cov-base.info --rc lcov_branch_coverage=1 '' 0
     \<in> set (new_events start (final (for_archs both_arch_host coverage_env (Some ''/b'') [''X64''] start)))
   \<and> Run ''lcov'' ''--add-tracefile /b/cov-base.info --add-tracefile /b/coverage-test.info --output-file /b/total-coverage.info --rc lcov_branch_coverage=1 '' 0
     \<in> set (new_events start (final (for_archs both_arch_host coverage_env (Some ''/b'') [''IA32''] start)))
   \<and> Run ''lcov'' ''--add-tracefile /b/cov-base.info --add-tracefile /b/coverage-test.info --output-file /b/total-coverage.info --rc lcov_branch_coverage=1 '' 0
     \<in> set (new_events start (final (for_archs both_arch_host coverage_env (Some ''/b'') [''X64''] start)))
   \<and> Run ''lcov_cobertura'' ''/b/total-coverage.info -o /b/compare.xml'' 0
     \<in> set (new_events start (final (for_archs both_arch_host coverage_env (Some ''/b'') [''IA32''] start)))
   \<and> Run ''lcov_cobertura'' ''/b/total-coverage.info -o /b/compare.xml'' 0
     \<in> set (new_events start (final (for_archs both_arch_host coverage_env (Some ''/b'') [''X64''] start)))
   \<and> ''/BTest.GTEST.ATest.GTEST.'' \<noteq> ''ATest.GTEST.''
   \<and> ''/BTest.GTEST.ATest.GTEST./ATest.GTEST./BTest.GTEST.ATest.GTEST..result.xml''
     \<in> set (result_files (new_events start (final (for_archs dotted_arch_host dotted_arch_env
          (Some ''/BTest.GTEST.ATest.GTEST.'') [''/BTest.GTEST.ATest.GTEST.''] start))))
   \<and> ''/BTest.GTEST.ATest.GTEST./ATest.GTEST./BTest.GTEST.ATest.GTEST..result.xml''
     \<in> set (result_files (new_events start (final (for_archs dotted_arch_host dotted_arch_env
          (Some ''/BTest.GTEST.ATest.GTEST.'') [''ATest.GTEST.''] start))))"
proof -
  have "''IA32'' \<noteq> ''X64''" "''/BTest.GTEST.ATest.GTEST.'' \<noteq> ''ATest.GTEST.''" by simp_all
  moreover have
    "''/BTest.GTEST.ATest.GTEST./ATest.GTEST./BTest.GTEST.ATest.GTEST..result.xml''
     \<in> set (result_files (new_events start (final (for_archs dotted_arch_host dotted_arch_env
          (Some ''/BTest.GTEST.ATest.GTEST.'') [''/BTest.GTEST.ATest.GTEST.''] start))))"
    "''/BTest.GTEST.ATest.GTEST./ATest.GTEST./BTest.GTEST.ATest.GTEST..result.xml''
     \<in> set (result_files (new_events start (final (for_archs dotted_arch_host dotted_arch_env
          (Some ''/BTest.GTEST.ATest.GTEST.'') [''ATest.GTEST.''] start))))"
    by (simp_all only: dotted_result_files) simp_all
  ultimately show ?thesis
    using IA32_coverage_commands X64_coverage_commands by blast
qed

end
